theory Spec2Isabelle
  imports Complex_Main "HOL-Library.Word" "HOL-Library.Multiset" "HOL-Library.Sublist"
begin

section \<open>Data model (main.go, lines 19-41)\<close>

text \<open>
  Go's \<open>uint\<close> and \<open>int\<close> are taken at 64 bits (the width on amd64 and arm64):
  an \<open>int\<close> is a HOL integer known to lie in \<open>[-2^63, 2^63)\<close>, a \<open>uint\<close> is a
  64-bit word, and the conversion \<open>uint(recv)\<close> is \<open>word_of_int\<close> (reduction modulo
  \<open>2^64\<close>). A Go string is a sequence of bytes, here a \<open>char list\<close>.
\<close>

type_synonym uint = "64 word"

record foodTruckInfo =
  Name :: string
  FacilityType :: string
  Address :: string
  Status :: string
  FoodItems :: string
  LatLon :: string
  Received :: uint

text \<open>
  Error values. \<open>ExternalError\<close> is an error handed back by a collaborator outside
  the repository (the file system, the CSV reader, the distance service);
  \<open>NumError\<close> is the \<open>*strconv.NumError\<close> of \<open>strconv.Atoi\<close>, carrying the text it
  refused.
\<close>

datatype error = ExternalError string | NumError string

text \<open>
  A call either returns or panics. A panic carries the error passed to
  \<open>panic(err)\<close> or is one of the run-time panics of the Go language.
\<close>

datatype panic =
    PanicError error
  | IndexOutOfRange
  | SliceBoundsOutOfRange
  | NilDereference

datatype 'a outcome = Return 'a | Panic panic

text \<open>
  A Go function with result \<open>(T, error)\<close> returns \<open>error + T\<close> here: \<open>Inl err\<close> is
  \<open>return nil, err\<close> and \<open>Inr x\<close> is \<open>return x, nil\<close>.
\<close>

text \<open>
  A \<open>float64\<close> as far as the code looks at it: it is compared with zero and
  formatted. Both zeros are \<open>Finite 0\<close>; \<open>NaN\<close> differs from every number.
\<close>

datatype float64 = Finite real | PosInf | NegInf | NaN

subsection \<open>Slices and their backing arrays\<close>

text \<open>
  A slice is a window \<open>(array, offset, length)\<close> on a backing array, or nil. The
  store holds the backing arrays by address. Two slices on the same array share
  its elements: a write through one is seen through the other.
\<close>

type_synonym store = "foodTruckInfo list list"

datatype slice = NilSlice | Slice nat nat nat

fun validSlice :: "store \<Rightarrow> slice \<Rightarrow> bool" where
  "validSlice h NilSlice = True"
| "validSlice h (Slice a off n) = (a < length h \<and> off + n \<le> length (h ! a))"

fun deref :: "store \<Rightarrow> slice \<Rightarrow> foodTruckInfo list" where
  "deref h NilSlice = []"
| "deref h (Slice a off n) = take n (drop off (h ! a))"

text \<open>
  \<open>var xs []T\<close> followed by \<open>xs = append(xs, x)\<close> in a loop: the slice stays nil
  when nothing is appended, and otherwise lives in arrays that \<open>append\<close> itself
  allocates, which no other slice refers to. The model collects the appended
  elements in a list and allocates one fresh array for them.
\<close>

definition fromList :: "foodTruckInfo list \<Rightarrow> store \<Rightarrow> slice \<times> store" where
  "fromList xs h = (if xs = [] then (NilSlice, h) else (Slice (length h) 0 (length xs), h @ [xs]))"

section \<open>Library functions the code calls\<close>

text \<open>
  Three pieces of the Go library are not given by their code but taken as
  parameters:
  \<^item> \<open>sortAlgorithm\<close>: the permutation \<open>sort.Slice\<close> applies, given the \<open>less\<close>
    function and the elements;
  \<^item> \<open>unicodeToLower\<close>: \<open>strings.ToLower\<close> on a string with a byte outside ASCII
    (the Unicode case tables);
  \<^item> \<open>formatFloat\<close>: the verb \<open>%f\<close> of \<open>fmt.Sprintf\<close> on a \<open>float64\<close>.
\<close>

record stdlib =
  sortAlgorithm :: "(foodTruckInfo \<Rightarrow> foodTruckInfo \<Rightarrow> bool) \<Rightarrow> foodTruckInfo list \<Rightarrow> foodTruckInfo list"
  unicodeToLower :: "string \<Rightarrow> string"
  formatFloat :: "float64 \<Rightarrow> string"

subsection \<open>strconv.Atoi\<close>

text \<open>
  \<open>strconv.Atoi\<close>: an optional sign, then one or more decimal digits, and a value
  that fits a 64-bit \<open>int\<close>; everything else is an error.
\<close>

definition isDigit :: "char \<Rightarrow> bool" where
  "isDigit c = (48 \<le> (of_char c :: nat) \<and> (of_char c :: nat) \<le> 57)"

definition digitsVal :: "string \<Rightarrow> nat" where
  "digitsVal ds = foldl (\<lambda>n c. 10 * n + (of_char c - 48)) 0 ds"

definition Atoi :: "string \<Rightarrow> error + int" where
  "Atoi s =
     (let neg = (s \<noteq> [] \<and> hd s = CHR ''-'');
          ds = (if s \<noteq> [] \<and> (hd s = CHR ''-'' \<or> hd s = CHR ''+'') then tl s else s)
      in if ds = [] \<or> \<not> list_all isDigit ds then Inl (NumError s)
         else let n = (if neg then - int (digitsVal ds) else int (digitsVal ds))
              in if n < - (2 ^ 63) \<or> 2 ^ 63 \<le> n then Inl (NumError s) else Inr n)"

subsection \<open>strings.ToLower and strings.Contains\<close>

definition isASCII :: "string \<Rightarrow> bool" where
  "isASCII s = list_all (\<lambda>c. (of_char c :: nat) < 128) s"

definition lowerASCII :: "char \<Rightarrow> char" where
  "lowerASCII c =
     (if 65 \<le> (of_char c :: nat) \<and> (of_char c :: nat) \<le> 90
      then char_of ((of_char c :: nat) + 32) else c)"

definition ToLower :: "stdlib \<Rightarrow> string \<Rightarrow> string" where
  "ToLower L s = (if isASCII s then map lowerASCII s else unicodeToLower L s)"

text \<open>\<open>strings.Contains s substr\<close>: \<open>substr\<close> occurs in \<open>s\<close> as a run of bytes.\<close>

fun Contains :: "string \<Rightarrow> string \<Rightarrow> bool" where
  "Contains [] substr = (substr = [])"
| "Contains (c # s) substr = (prefix substr (c # s) \<or> Contains s substr)"

subsection \<open>sort.Slice\<close>

text \<open>
  \<open>sort.Slice(x, less)\<close> reorders the elements of \<open>x\<close> where they are: it writes
  the window of the backing array that \<open>x\<close> covers and nothing else.
\<close>

fun sort_Slice :: "stdlib \<Rightarrow> store \<Rightarrow> slice \<Rightarrow> (foodTruckInfo \<Rightarrow> foodTruckInfo \<Rightarrow> bool) \<Rightarrow> store" where
  "sort_Slice L h NilSlice lessFn = h"
| "sort_Slice L h (Slice a off n) lessFn =
     h[a := take off (h ! a) @ sortAlgorithm L lessFn (take n (drop off (h ! a))) @ drop (off + n) (h ! a)]"

subsection \<open>sort.Slice as the Go library implements it\<close>

text \<open>
  The code of \<open>sort.Slice\<close> in package \<open>sort\<close> of the Go library since Go 1.19
  (\<open>sort/slice.go\<close> and \<open>sort/zsortfunc.go\<close>, pattern-defeating quicksort), for the
  run of the program on a concrete list. Indices are Go \<open>int\<close>s. Each function
  gives the slice after the call, which Go changes in place. The functions whose
  loops end for a reason that is not plain from one round are in the option
  type: \<open>None\<close> is a loop that does not end.
\<close>

unbundle bit_operations_syntax

text \<open>Go's \<open>/\<close> on \<open>int\<close> truncates towards zero; \<open>bits.Len\<close> is the number of bits of a number.\<close>

definition quo :: "int \<Rightarrow> int \<Rightarrow> int" where
  "quo x y = sgn x * sgn y * (\<bar>x\<bar> div \<bar>y\<bar>)"

fun bitsLen :: "nat \<Rightarrow> nat" where
  "bitsLen n = (if n = 0 then 0 else Suc (bitsLen (n div 2)))"

declare bitsLen.simps [simp del]

text \<open>\<open>data.Less(i, j)\<close> and \<open>data.Swap(i, j)\<close> of \<open>lessSwap\<close>, on the elements of the slice.\<close>

definition lessAt :: "('a \<Rightarrow> 'a \<Rightarrow> bool) \<Rightarrow> 'a list \<Rightarrow> int \<Rightarrow> int \<Rightarrow> bool" where
  "lessAt lessFn data i j = lessFn (data ! nat i) (data ! nat j)"

definition swapAt :: "'a list \<Rightarrow> int \<Rightarrow> int \<Rightarrow> 'a list" where
  "swapAt data i j = data[nat i := data ! nat j, nat j := data ! nat i]"

text \<open>
  \<open>insertionSort_func(data, a, b)\<close>: \<open>insertionShift\<close> is the inner loop over \<open>j\<close>,
  \<open>insertionLoop\<close> the outer loop over \<open>i\<close>.
\<close>

function insertionShift :: "('a \<Rightarrow> 'a \<Rightarrow> bool) \<Rightarrow> 'a list \<Rightarrow> int \<Rightarrow> int \<Rightarrow> 'a list" where
  "insertionShift lessFn data a j =
     (if j > a \<and> lessAt lessFn data j (j - 1)
      then insertionShift lessFn (swapAt data j (j - 1)) a (j - 1)
      else data)"
  by pat_completeness auto
termination
  by (relation "measure (\<lambda>(lessFn, data, a, j). nat (j - a))") auto

declare insertionShift.simps [simp del]

function insertionLoop :: "('a \<Rightarrow> 'a \<Rightarrow> bool) \<Rightarrow> 'a list \<Rightarrow> int \<Rightarrow> int \<Rightarrow> int \<Rightarrow> 'a list" where
  "insertionLoop lessFn data a b i =
     (if i < b then insertionLoop lessFn (insertionShift lessFn data a i) a b (i + 1) else data)"
  by pat_completeness auto
termination
  by (relation "measure (\<lambda>(lessFn, data, a, b, i). nat (b - i))") auto

declare insertionLoop.simps [simp del]

definition insertionSort_func :: "('a \<Rightarrow> 'a \<Rightarrow> bool) \<Rightarrow> 'a list \<Rightarrow> int \<Rightarrow> int \<Rightarrow> 'a list" where
  "insertionSort_func lessFn data a b = insertionLoop lessFn data a b (a + 1)"

text \<open>
  \<open>siftDown_func(data, lo, hi, first)\<close>, the loop on \<open>root\<close> (here \<open>rootIdx\<close>, which
  starts at \<open>lo\<close>), and \<open>heapSort_func(data, a, b)\<close> with its two loops,
  \<open>heapBuild\<close> and \<open>heapPop\<close>.
\<close>

partial_function (option) siftDown_func :: "('a \<Rightarrow> 'a \<Rightarrow> bool) \<Rightarrow> 'a list \<Rightarrow> int \<Rightarrow> int \<Rightarrow> int \<Rightarrow> 'a list option" where
  "siftDown_func lessFn data rootIdx hi first =
     (let child = 2 * rootIdx + 1 in
      if child \<ge> hi then Some data
      else let child' = (if child + 1 < hi \<and> lessAt lessFn data (first + child) (first + child + 1)
                         then child + 1 else child)
           in if \<not> lessAt lessFn data (first + rootIdx) (first + child') then Some data
              else siftDown_func lessFn (swapAt data (first + rootIdx) (first + child')) child' hi first)"

partial_function (option) heapBuild :: "('a \<Rightarrow> 'a \<Rightarrow> bool) \<Rightarrow> 'a list \<Rightarrow> int \<Rightarrow> int \<Rightarrow> int \<Rightarrow> 'a list option" where
  "heapBuild lessFn data i hi first =
     (if i \<ge> 0
      then Option.bind (siftDown_func lessFn data i hi first) (\<lambda>data'. heapBuild lessFn data' (i - 1) hi first)
      else Some data)"

partial_function (option) heapPop :: "('a \<Rightarrow> 'a \<Rightarrow> bool) \<Rightarrow> 'a list \<Rightarrow> int \<Rightarrow> int \<Rightarrow> 'a list option" where
  "heapPop lessFn data i first =
     (if i \<ge> 0
      then Option.bind (siftDown_func lessFn (swapAt data first (first + i)) 0 i first)
             (\<lambda>data'. heapPop lessFn data' (i - 1) first)
      else Some data)"

definition heapSort_func :: "('a \<Rightarrow> 'a \<Rightarrow> bool) \<Rightarrow> 'a list \<Rightarrow> int \<Rightarrow> int \<Rightarrow> 'a list option" where
  "heapSort_func lessFn data a b =
     (let first = a; hi = b - a
      in Option.bind (heapBuild lessFn data (quo (hi - 1) 2) hi first)
           (\<lambda>data'. heapPop lessFn data' (hi - 1) first))"

text \<open>
  \<open>partition_func(data, a, b, pivot)\<close>. \<open>scanLess\<close> is
  \<open>for i <= j && data.Less(i, a) { i++ }\<close>, \<open>scanNotLess\<close> is
  \<open>for i <= j && !data.Less(j, a) { j-- }\<close>, \<open>partitionLoop\<close> the \<open>for { ... }\<close> that
  follows the first exchange. The result is the slice, the new place of the pivot
  and \<open>alreadyPartitioned\<close>.
\<close>

function scanLess :: "('a \<Rightarrow> 'a \<Rightarrow> bool) \<Rightarrow> 'a list \<Rightarrow> int \<Rightarrow> int \<Rightarrow> int \<Rightarrow> int" where
  "scanLess lessFn data a i j =
     (if i \<le> j \<and> lessAt lessFn data i a then scanLess lessFn data a (i + 1) j else i)"
  by pat_completeness auto
termination
  by (relation "measure (\<lambda>(lessFn, data, a, i, j). nat (j + 1 - i))") auto

declare scanLess.simps [simp del]

function scanNotLess :: "('a \<Rightarrow> 'a \<Rightarrow> bool) \<Rightarrow> 'a list \<Rightarrow> int \<Rightarrow> int \<Rightarrow> int \<Rightarrow> int" where
  "scanNotLess lessFn data a i j =
     (if i \<le> j \<and> \<not> lessAt lessFn data j a then scanNotLess lessFn data a i (j - 1) else j)"
  by pat_completeness auto
termination
  by (relation "measure (\<lambda>(lessFn, data, a, i, j). nat (j + 1 - i))") auto

declare scanNotLess.simps [simp del]

partial_function (option) partitionLoop :: "('a \<Rightarrow> 'a \<Rightarrow> bool) \<Rightarrow> 'a list \<Rightarrow> int \<Rightarrow> int \<Rightarrow> int \<Rightarrow> ('a list \<times> int) option" where
  "partitionLoop lessFn data a i j =
     (let i' = scanLess lessFn data a i j;
          j' = scanNotLess lessFn data a i' j
      in if i' > j' then Some (data, j')
         else partitionLoop lessFn (swapAt data i' j') a (i' + 1) (j' - 1))"

definition partition_func :: "('a \<Rightarrow> 'a \<Rightarrow> bool) \<Rightarrow> 'a list \<Rightarrow> int \<Rightarrow> int \<Rightarrow> int \<Rightarrow> ('a list \<times> int \<times> bool) option" where
  "partition_func lessFn data a b pivot =
     (let data1 = swapAt data a pivot;
          i = scanLess lessFn data1 a (a + 1) (b - 1);
          j = scanNotLess lessFn data1 a i (b - 1)
      in if i > j then Some (swapAt data1 j a, j, True)
         else Option.bind (partitionLoop lessFn (swapAt data1 i j) a (i + 1) (j - 1))
                (\<lambda>(data2, j2). Some (swapAt data2 j2 a, j2, False)))"

text \<open>
  \<open>partitionEqual_func(data, a, b, pivot)\<close>, with
  \<open>for i <= j && !data.Less(a, i) { i++ }\<close> and \<open>for i <= j && data.Less(a, j) { j-- }\<close>.
\<close>

function scanNotGreater :: "('a \<Rightarrow> 'a \<Rightarrow> bool) \<Rightarrow> 'a list \<Rightarrow> int \<Rightarrow> int \<Rightarrow> int \<Rightarrow> int" where
  "scanNotGreater lessFn data a i j =
     (if i \<le> j \<and> \<not> lessAt lessFn data a i then scanNotGreater lessFn data a (i + 1) j else i)"
  by pat_completeness auto
termination
  by (relation "measure (\<lambda>(lessFn, data, a, i, j). nat (j + 1 - i))") auto

declare scanNotGreater.simps [simp del]

function scanGreater :: "('a \<Rightarrow> 'a \<Rightarrow> bool) \<Rightarrow> 'a list \<Rightarrow> int \<Rightarrow> int \<Rightarrow> int \<Rightarrow> int" where
  "scanGreater lessFn data a i j =
     (if i \<le> j \<and> lessAt lessFn data a j then scanGreater lessFn data a i (j - 1) else j)"
  by pat_completeness auto
termination
  by (relation "measure (\<lambda>(lessFn, data, a, i, j). nat (j + 1 - i))") auto

declare scanGreater.simps [simp del]

partial_function (option) partitionEqualLoop :: "('a \<Rightarrow> 'a \<Rightarrow> bool) \<Rightarrow> 'a list \<Rightarrow> int \<Rightarrow> int \<Rightarrow> int \<Rightarrow> ('a list \<times> int) option" where
  "partitionEqualLoop lessFn data a i j =
     (let i' = scanNotGreater lessFn data a i j;
          j' = scanGreater lessFn data a i' j
      in if i' > j' then Some (data, i')
         else partitionEqualLoop lessFn (swapAt data i' j') a (i' + 1) (j' - 1))"

definition partitionEqual_func :: "('a \<Rightarrow> 'a \<Rightarrow> bool) \<Rightarrow> 'a list \<Rightarrow> int \<Rightarrow> int \<Rightarrow> int \<Rightarrow> ('a list \<times> int) option" where
  "partitionEqual_func lessFn data a b pivot =
     partitionEqualLoop lessFn (swapAt data a pivot) a (a + 1) (b - 1)"

text \<open>
  \<open>partialInsertionSort_func(data, a, b)\<close>, with \<open>maxSteps = 5\<close> and
  \<open>shortestShifting = 50\<close>: \<open>scanSorted\<close> is \<open>for i < b && !data.Less(i, i-1) { i++ }\<close>,
  \<open>shiftLeft\<close> and \<open>shiftRight\<close> are the two loops that move the exchanged pair.
\<close>

function scanSorted :: "('a \<Rightarrow> 'a \<Rightarrow> bool) \<Rightarrow> 'a list \<Rightarrow> int \<Rightarrow> int \<Rightarrow> int" where
  "scanSorted lessFn data b i =
     (if i < b \<and> \<not> lessAt lessFn data i (i - 1) then scanSorted lessFn data b (i + 1) else i)"
  by pat_completeness auto
termination
  by (relation "measure (\<lambda>(lessFn, data, b, i). nat (b - i))") auto

declare scanSorted.simps [simp del]

function shiftLeft :: "('a \<Rightarrow> 'a \<Rightarrow> bool) \<Rightarrow> 'a list \<Rightarrow> int \<Rightarrow> 'a list" where
  "shiftLeft lessFn data j =
     (if j \<ge> 1
      then (if \<not> lessAt lessFn data j (j - 1) then data
            else shiftLeft lessFn (swapAt data j (j - 1)) (j - 1))
      else data)"
  by pat_completeness auto
termination
  by (relation "measure (\<lambda>(lessFn, data, j). nat j)") auto

declare shiftLeft.simps [simp del]

function shiftRight :: "('a \<Rightarrow> 'a \<Rightarrow> bool) \<Rightarrow> 'a list \<Rightarrow> int \<Rightarrow> int \<Rightarrow> 'a list" where
  "shiftRight lessFn data b j =
     (if j < b
      then (if \<not> lessAt lessFn data j (j - 1) then data
            else shiftRight lessFn (swapAt data j (j - 1)) b (j + 1))
      else data)"
  by pat_completeness auto
termination
  by (relation "measure (\<lambda>(lessFn, data, b, j). nat (b - j))") auto

declare shiftRight.simps [simp del]

function partialInsertionLoop :: "('a \<Rightarrow> 'a \<Rightarrow> bool) \<Rightarrow> 'a list \<Rightarrow> int \<Rightarrow> int \<Rightarrow> int \<Rightarrow> int \<Rightarrow> 'a list \<times> bool" where
  "partialInsertionLoop lessFn data a b i step =
     (if step < 5 then
        (let i' = scanSorted lessFn data b i
         in if i' = b then (data, True)
            else if b - a < 50 then (data, False)
            else let data1 = swapAt data i' (i' - 1);
                     data2 = (if i' - a \<ge> 2 then shiftLeft lessFn data1 (i' - 1) else data1);
                     data3 = (if b - i' \<ge> 2 then shiftRight lessFn data2 b (i' + 1) else data2)
                 in partialInsertionLoop lessFn data3 a b i' (step + 1))
      else (data, False))"
  by pat_completeness auto
termination
  by (relation "measure (\<lambda>(lessFn, data, a, b, i, step). nat (5 - step))") auto

declare partialInsertionLoop.simps [simp del]

definition partialInsertionSort_func :: "('a \<Rightarrow> 'a \<Rightarrow> bool) \<Rightarrow> 'a list \<Rightarrow> int \<Rightarrow> int \<Rightarrow> 'a list \<times> bool" where
  "partialInsertionSort_func lessFn data a b = partialInsertionLoop lessFn data a b (a + 1) 0"

text \<open>
  \<open>breakPatterns_func(data, a, b)\<close>: three exchanges at places drawn from the
  \<open>xorshift\<close> generator seeded with the length.
\<close>

definition xorshift_Next :: "64 word \<Rightarrow> 64 word" where
  "xorshift_Next r =
     (let r1 = r XOR push_bit 13 r;
          r2 = r1 XOR drop_bit 7 r1
      in r2 XOR push_bit 17 r2)"

fun breakSwaps :: "'a list \<Rightarrow> int \<Rightarrow> int \<Rightarrow> int \<Rightarrow> 64 word \<Rightarrow> 64 word \<Rightarrow> int list \<Rightarrow> 'a list" where
  "breakSwaps data idx a n modulus random [] = data"
| "breakSwaps data idx a n modulus random (i # rest) =
     (let random' = xorshift_Next random;
          other = uint (random' AND (modulus - 1));
          other' = (if other \<ge> n then other - n else other)
      in breakSwaps (swapAt data (idx - 1 + i) (a + other')) idx a n modulus random' rest)"

definition breakPatterns_func :: "'a list \<Rightarrow> int \<Rightarrow> int \<Rightarrow> 'a list" where
  "breakPatterns_func data a b =
     (let n = b - a
      in if n \<ge> 8
         then breakSwaps data (a + quo n 4 * 2 - 1) a n (push_bit (bitsLen (nat n)) 1) (word_of_int n) [0, 1, 2]
         else data)"

text \<open>
  \<open>choosePivot_func(data, a, b)\<close> with \<open>order2_func\<close>, \<open>median_func\<close> and
  \<open>medianAdjacent_func\<close>; \<open>shortestNinther = 50\<close>, \<open>maxSwaps = 12\<close>. The counter
  \<open>swaps\<close> is passed along and returned.
\<close>

datatype sortedHint = unknownHint | increasingHint | decreasingHint

definition order2_func :: "('a \<Rightarrow> 'a \<Rightarrow> bool) \<Rightarrow> 'a list \<Rightarrow> int \<Rightarrow> int \<Rightarrow> nat \<Rightarrow> int \<times> int \<times> nat" where
  "order2_func lessFn data a b swaps =
     (if lessAt lessFn data b a then (b, a, swaps + 1) else (a, b, swaps))"

definition median_func :: "('a \<Rightarrow> 'a \<Rightarrow> bool) \<Rightarrow> 'a list \<Rightarrow> int \<Rightarrow> int \<Rightarrow> int \<Rightarrow> nat \<Rightarrow> int \<times> nat" where
  "median_func lessFn data a b c swaps =
     (case order2_func lessFn data a b swaps of (a1, b1, s1) \<Rightarrow>
      case order2_func lessFn data b1 c s1 of (b2, c2, s2) \<Rightarrow>
      case order2_func lessFn data a1 b2 s2 of (a3, b3, s3) \<Rightarrow> (b3, s3))"

definition medianAdjacent_func :: "('a \<Rightarrow> 'a \<Rightarrow> bool) \<Rightarrow> 'a list \<Rightarrow> int \<Rightarrow> nat \<Rightarrow> int \<times> nat" where
  "medianAdjacent_func lessFn data a swaps = median_func lessFn data (a - 1) a (a + 1) swaps"

definition choosePivot_func :: "('a \<Rightarrow> 'a \<Rightarrow> bool) \<Rightarrow> 'a list \<Rightarrow> int \<Rightarrow> int \<Rightarrow> int \<times> sortedHint" where
  "choosePivot_func lessFn data a b =
     (let l = b - a;
          i = a + quo l 4 * 1;
          j = a + quo l 4 * 2;
          k = a + quo l 4 * 3
      in case (if l \<ge> 8
               then (case (if l \<ge> 50
                           then (case medianAdjacent_func lessFn data i 0 of (i1, s1) \<Rightarrow>
                                 case medianAdjacent_func lessFn data j s1 of (j1, s2) \<Rightarrow>
                                 case medianAdjacent_func lessFn data k s2 of (k1, s3) \<Rightarrow> (i1, j1, k1, s3))
                           else (i, j, k, 0))
                     of (i2, j2, k2, s) \<Rightarrow> median_func lessFn data i2 j2 k2 s)
               else (j, 0))
         of (pivot, swaps) \<Rightarrow>
           if swaps = 0 then (pivot, increasingHint)
           else if swaps = 12 then (pivot, decreasingHint)
           else (pivot, unknownHint))"

text \<open>\<open>reverseRange_func(data, a, b)\<close>.\<close>

function reverseLoop :: "'a list \<Rightarrow> int \<Rightarrow> int \<Rightarrow> 'a list" where
  "reverseLoop data i j = (if i < j then reverseLoop (swapAt data i j) (i + 1) (j - 1) else data)"
  by pat_completeness auto
termination
  by (relation "measure (\<lambda>(data, i, j). nat (j - i))") auto

declare reverseLoop.simps [simp del]

definition reverseRange_func :: "'a list \<Rightarrow> int \<Rightarrow> int \<Rightarrow> 'a list" where
  "reverseRange_func data a b = reverseLoop data a (b - 1)"

text \<open>
  \<open>pdqsort_func(data, a, b, limit)\<close>, with \<open>maxInsertion = 12\<close>. One unfolding is
  one round of its \<open>for\<close> loop; the loop's variables \<open>wasBalanced\<close> and
  \<open>wasPartitioned\<close> are arguments, \<open>True\<close> at every call from outside the loop.
\<close>

partial_function (option) pdqsort_func :: "('a \<Rightarrow> 'a \<Rightarrow> bool) \<Rightarrow> 'a list \<Rightarrow> int \<Rightarrow> int \<Rightarrow> int \<Rightarrow> bool \<Rightarrow> bool \<Rightarrow> 'a list option" where
  "pdqsort_func lessFn data a b limit wasBalanced wasPartitioned =
     (let n = b - a in
      if n \<le> 12 then Some (insertionSort_func lessFn data a b)
      else if limit = 0 then heapSort_func lessFn data a b
      else
        let data1 = (if \<not> wasBalanced then breakPatterns_func data a b else data);
            limit1 = (if \<not> wasBalanced then limit - 1 else limit)
        in case choosePivot_func lessFn data1 a b of (pivot0, hint0) \<Rightarrow>
        let data2 = (if hint0 = decreasingHint then reverseRange_func data1 a b else data1);
            pivot = (if hint0 = decreasingHint then (b - 1) - (pivot0 - a) else pivot0);
            hint = (if hint0 = decreasingHint then increasingHint else hint0)
        in case (if wasBalanced \<and> wasPartitioned \<and> hint = increasingHint
                 then partialInsertionSort_func lessFn data2 a b else (data2, False)) of (data3, isSorted) \<Rightarrow>
        if isSorted then Some data3
        else if a > 0 \<and> \<not> lessAt lessFn data3 (a - 1) pivot
        then Option.bind (partitionEqual_func lessFn data3 a b pivot)
               (\<lambda>(data4, mid). pdqsort_func lessFn data4 mid b limit1 wasBalanced wasPartitioned)
        else Option.bind (partition_func lessFn data3 a b pivot)
               (\<lambda>(data4, mid, alreadyPartitioned).
                  let leftLen = mid - a; rightLen = b - mid; balanceThreshold = quo n 8
                  in if leftLen < rightLen
                     then Option.bind (pdqsort_func lessFn data4 a mid limit1 True True)
                            (\<lambda>data5. pdqsort_func lessFn data5 (mid + 1) b limit1
                                        (leftLen \<ge> balanceThreshold) alreadyPartitioned)
                     else Option.bind (pdqsort_func lessFn data4 (mid + 1) b limit1 True True)
                            (\<lambda>data5. pdqsort_func lessFn data5 a mid limit1
                                        (rightLen \<ge> balanceThreshold) alreadyPartitioned)))"

text \<open>\<open>sort.Slice(x, less)\<close>: \<open>pdqsort_func\<close> on the whole slice, with \<open>limit = bits.Len(length)\<close>.\<close>

definition sort_Slice_pdqsort :: "('a \<Rightarrow> 'a \<Rightarrow> bool) \<Rightarrow> 'a list \<Rightarrow> 'a list option" where
  "sort_Slice_pdqsort lessFn x =
     pdqsort_func lessFn x 0 (int (length x)) (int (bitsLen (length x))) True True"

section \<open>readFoodTruckData (main.go, lines 158-201)\<close>

text \<open>The struct literal of lines 182-191, for a row and its parsed column 20.\<close>

definition rowInfo :: "string list \<Rightarrow> int \<Rightarrow> foodTruckInfo" where
  "rowInfo line recv =
     \<lparr> Name = line ! 1,
       FacilityType = line ! 2,
       Address = line ! 5,
       Status = line ! 10,
       FoodItems = line ! 11,
       LatLon = line ! 14 @ '','' @ line ! 15,
       Received = word_of_int recv \<rparr>"

text \<open>
  The loop of lines 177-198 over the rows after the header, with \<open>trucksInFile\<close>
  as accumulator. \<open>line[20]\<close> is read first, so a row of fewer than 21 fields
  panics before anything else is looked at.
\<close>

fun readRows :: "string list list \<Rightarrow> foodTruckInfo list \<Rightarrow> (error + foodTruckInfo list) outcome" where
  "readRows [] trucksInFile = Return (Inr trucksInFile)"
| "readRows (line # rest) trucksInFile =
     (if length line \<le> 20 then Panic IndexOutOfRange
      else case Atoi (line ! 20) of
             Inl err \<Rightarrow> Return (Inl err)
           | Inr recv \<Rightarrow>
               (let info = rowInfo line recv
                in if Status info = ''APPROVED''
                   then readRows rest (trucksInFile @ [info])
                   else readRows rest trucksInFile))"

text \<open>
  \<open>readCSV filename\<close> stands for \<open>os.Open\<close> followed by
  \<open>csv.NewReader(f).ReadAll()\<close>: the rows of the file, or the error of either
  call. \<open>lines[1:]\<close> panics on a file with no row at all.
\<close>

definition readFoodTruckData :: "(string \<Rightarrow> error + string list list) \<Rightarrow> string \<Rightarrow> (error + foodTruckInfo list) outcome" where
  "readFoodTruckData readCSV filename =
     (case readCSV filename of
        Inl err \<Rightarrow> Return (Inl err)
      | Inr lines \<Rightarrow>
          (case lines of
             [] \<Rightarrow> Panic SliceBoundsOutOfRange
           | header # rows \<Rightarrow> readRows rows []))"

section \<open>getWalkableTrucks (main.go, lines 203-266)\<close>

text \<open>
  The distance service. A request holds the origins and the destinations (its
  other fields are the same constants in every call: language \<open>en\<close>, departure
  \<open>now\<close>, mode walking, metric units). Of an element of the response the code
  reads \<open>Status\<close> and \<open>Distance.Meters\<close>. A response is a pointer and so are its
  elements: \<open>None\<close> is the nil pointer.
\<close>

record DistanceMatrixRequest =
  Origins :: "string list"
  Destinations :: "string list"

record DistanceMatrixElement =
  ElementStatus :: string
  Meters :: int

record DistanceMatrixElementsRow =
  Elements :: "DistanceMatrixElement option list"

record DistanceMatrixResponse =
  Rows :: "DistanceMatrixElementsRow list"

text \<open>
  \<open>distanceMatrixRetriever\<close>: the interface is implemented outside the
  repository (by the Google Maps client, or by a mock). Its answer may depend
  on the request and on how many calls came before in the same run, the first
  argument.
\<close>

type_synonym distanceMatrixRetriever =
  "nat \<Rightarrow> DistanceMatrixRequest \<Rightarrow> error + DistanceMatrixResponse option"

definition maxDestinationsPerRequest :: nat where
  "maxDestinationsPerRequest = 25"

text \<open>
  Line 209, \<open>int(math.Ceil(float64(len(allTrucks)) / float64(25)))\<close>, in exact
  arithmetic. The \<open>float64\<close> quotient rounds to the same ceiling for every length
  below \<open>2^53\<close>.
\<close>

definition numRequests :: "nat \<Rightarrow> nat" where
  "numRequests n = nat \<lceil>real n / real maxDestinationsPerRequest\<rceil>"

text \<open>
  The loop of lines 257-261 over the elements of the first row, with the index
  \<open>v\<close> and \<open>walkableTrucks\<close> as accumulator.
\<close>

fun keepWalkable :: "foodTruckInfo list \<Rightarrow> nat \<Rightarrow> nat \<Rightarrow> DistanceMatrixElement option list \<Rightarrow> foodTruckInfo list \<Rightarrow> foodTruckInfo list outcome" where
  "keepWalkable allTrucks startIdx v [] walkableTrucks = Return walkableTrucks"
| "keepWalkable allTrucks startIdx v (e # es) walkableTrucks =
     (case e of
        None \<Rightarrow> Panic NilDereference
      | Some elem \<Rightarrow>
          if ElementStatus elem = ''OK'' \<and> Meters elem < 1000
          then (if startIdx + v < length allTrucks
                then keepWalkable allTrucks startIdx (Suc v) es (walkableTrucks @ [allTrucks ! (startIdx + v)])
                else Panic IndexOutOfRange)
          else keepWalkable allTrucks startIdx (Suc v) es walkableTrucks)"

text \<open>The request of lines 223-245 for batch \<open>i\<close>.\<close>

definition batchRequest :: "string list \<Rightarrow> foodTruckInfo list \<Rightarrow> nat \<Rightarrow> DistanceMatrixRequest" where
  "batchRequest origins allTrucks i =
     (let startIdx = i * maxDestinationsPerRequest;
          endIdx = min (length allTrucks) (startIdx + maxDestinationsPerRequest)
      in \<lparr> Origins = origins,
           Destinations = map LatLon (take (endIdx - startIdx) (drop startIdx allTrucks)) \<rparr>)"

text \<open>
  One round of the loop of lines 221-263, from the call of the service on:
  the outcome is the new \<open>walkableTrucks\<close>, or a panic.
\<close>

definition processBatch :: "distanceMatrixRetriever \<Rightarrow> string list \<Rightarrow> foodTruckInfo list \<Rightarrow> nat \<Rightarrow> foodTruckInfo list \<Rightarrow> foodTruckInfo list outcome" where
  "processBatch d origins allTrucks i walkableTrucks =
     (case d i (batchRequest origins allTrucks i) of
        Inl err \<Rightarrow> Panic (PanicError err)
      | Inr None \<Rightarrow> Panic NilDereference
      | Inr (Some resp) \<Rightarrow>
          (case Rows resp of
             [] \<Rightarrow> Panic IndexOutOfRange
           | row # _ \<Rightarrow> keepWalkable allTrucks (i * maxDestinationsPerRequest) 0 (Elements row) walkableTrucks))"

text \<open>
  The loop of lines 221-263. Beside the outcome it gives the requests sent to
  the service, in the order of the calls.
\<close>

function requestLoop :: "distanceMatrixRetriever \<Rightarrow> string list \<Rightarrow> foodTruckInfo list \<Rightarrow> nat \<Rightarrow> nat \<Rightarrow> foodTruckInfo list \<Rightarrow> DistanceMatrixRequest list \<Rightarrow> (error + foodTruckInfo list) outcome \<times> DistanceMatrixRequest list" where
  "requestLoop d origins allTrucks n i walkableTrucks calls =
     (if i < n then
        (if i * maxDestinationsPerRequest > min (length allTrucks) (i * maxDestinationsPerRequest + maxDestinationsPerRequest)
         then (Panic SliceBoundsOutOfRange, calls)
         else case processBatch d origins allTrucks i walkableTrucks of
                Panic p \<Rightarrow> (Panic p, calls @ [batchRequest origins allTrucks i])
              | Return walkableTrucks' \<Rightarrow>
                  requestLoop d origins allTrucks n (Suc i) walkableTrucks' (calls @ [batchRequest origins allTrucks i]))
      else (Return (Inr walkableTrucks), calls))"
  by pat_completeness auto
termination
  by (relation "measure (\<lambda>(d, origins, allTrucks, n, i, walkableTrucks, calls). n - i)") auto

declare requestLoop.simps [simp del]

text \<open>Lines 216-217: the one origin, \<open>fmt.Sprintf("%f,%f", lat, lon)\<close>.\<close>

definition origin :: "stdlib \<Rightarrow> float64 \<Rightarrow> float64 \<Rightarrow> string list" where
  "origin L lat lon = [formatFloat L lat @ '','' @ formatFloat L lon]"

definition getWalkableTrucks :: "stdlib \<Rightarrow> distanceMatrixRetriever \<Rightarrow> foodTruckInfo list \<Rightarrow> float64 \<Rightarrow> float64 \<Rightarrow> bool \<Rightarrow> (error + foodTruckInfo list) outcome \<times> DistanceMatrixRequest list" where
  "getWalkableTrucks L d allTrucks lat lon debugging =
     requestLoop d (origin L lat lon) allTrucks (numRequests (length allTrucks)) 0 [] []"

section \<open>searchFoodTrucks (main.go, lines 112-156)\<close>

text \<open>The loop of lines 126-130, with \<open>results\<close> as accumulator.\<close>

fun searchLoop :: "stdlib \<Rightarrow> string \<Rightarrow> foodTruckInfo list \<Rightarrow> foodTruckInfo list \<Rightarrow> foodTruckInfo list" where
  "searchLoop L searchTerm [] results = results"
| "searchLoop L searchTerm (truck # rest) results =
     (if Contains (ToLower L (FoodItems truck)) (ToLower L searchTerm)
      then searchLoop L searchTerm rest (results @ [truck])
      else searchLoop L searchTerm rest results)"

text \<open>
  Lines 122-133. With an empty search term \<open>results = searchList\<close> copies the
  slice header only: \<open>results\<close> is then a second name for the caller's array.
\<close>

definition keywordStep :: "stdlib \<Rightarrow> store \<Rightarrow> slice \<Rightarrow> string \<Rightarrow> slice \<times> store" where
  "keywordStep L h searchList searchTerm =
     (if length searchTerm > 0
      then fromList (searchLoop L searchTerm (deref h searchList) []) h
      else (searchList, h))"

text \<open>The \<open>less\<close> function of lines 151-153.\<close>

definition newer :: "foodTruckInfo \<Rightarrow> foodTruckInfo \<Rightarrow> bool" where
  "newer a b = (Received a > Received b)"

text \<open>Lines 147-154.\<close>

definition newestStep :: "stdlib \<Rightarrow> bool \<Rightarrow> store \<Rightarrow> slice \<Rightarrow> store" where
  "newestStep L newestFirst h results = (if newestFirst then sort_Slice L h results newer else h)"

text \<open>
  The whole function. It gives the slice returned (or the panic), the store when
  it ends, and the requests sent to the distance service. The printing under
  \<open>debugging\<close> is left out: it changes neither the result nor the store.
\<close>

definition searchFoodTrucks :: "stdlib \<Rightarrow> store \<Rightarrow> slice \<Rightarrow> distanceMatrixRetriever \<Rightarrow> bool \<Rightarrow> string \<Rightarrow> float64 \<Rightarrow> float64 \<Rightarrow> bool \<Rightarrow> slice outcome \<times> store \<times> DistanceMatrixRequest list" where
  "searchFoodTrucks L h searchList distRetriever debugging searchTerm lat lon newestFirst =
     (case keywordStep L h searchList searchTerm of
        (results, h1) \<Rightarrow>
          if lat \<noteq> Finite 0 \<and> lon \<noteq> Finite 0
          then (case getWalkableTrucks L distRetriever (deref h1 results) lat lon debugging of
                  (Panic p, calls) \<Rightarrow> (Panic p, h1, calls)
                | (Return (Inl err), calls) \<Rightarrow> (Panic (PanicError err), h1, calls)
                | (Return (Inr walkableTrucks), calls) \<Rightarrow>
                    (case fromList walkableTrucks h1 of
                       (results', h2) \<Rightarrow> (Return results', newestStep L newestFirst h2 results', calls)))
          else (Return results, newestStep L newestFirst h1 results, []))"

section \<open>Definitions used to state the properties\<close>

subsection \<open>The loader\<close>

text \<open>The record a well-formed row stands for, and what makes a row well-formed.\<close>

definition recordOfRow :: "string list \<Rightarrow> foodTruckInfo" where
  "recordOfRow line = rowInfo line (case Atoi (line ! 20) of Inr recv \<Rightarrow> recv | Inl err \<Rightarrow> 0)"

definition wellFormedRow :: "string list \<Rightarrow> bool" where
  "wellFormedRow line = (20 < length line \<and> \<not> isl (Atoi (line ! 20)))"

text \<open>A row of 21 fields, and two small files, for the concrete instances.\<close>

definition sampleRow :: "string \<Rightarrow> string \<Rightarrow> string \<Rightarrow> string \<Rightarrow> string list" where
  "sampleRow name status items recv =
     [''1'', name, ''Truck'', '''', '''', ''1 MAIN ST'', '''', '''', '''', '''', status, items,
      '''', '''', ''37.79'', ''-122.39'', '''', '''', '''', '''', recv]"

definition sampleRows :: "string list list" where
  "sampleRows =
     [sampleRow ''Pretzel Cart'' ''APPROVED'' ''Pretzels: hot dogs'' ''20150304'',
      sampleRow ''Taco Van'' ''approved'' ''Tacos'' ''20160101'',
      sampleRow ''Old Grill'' ''EXPIRED'' ''Burgers'' ''20120101'',
      sampleRow ''Noodle Bus'' ''APPROVED'' ''Noodles'' ''-1'']"

definition sampleCSV :: "string \<Rightarrow> error + string list list" where
  "sampleCSV filename =
     (if filename = ''permits.csv''
      then Inr (sampleRow ''Applicant'' ''Status'' ''FoodItems'' ''Received'' # sampleRows)
      else Inl (ExternalError ''no such file''))"

definition brokenCSV :: "string \<Rightarrow> error + string list list" where
  "brokenCSV filename =
     Inr [sampleRow ''Applicant'' ''Status'' ''FoodItems'' ''Received'',
          sampleRow ''Pretzel Cart'' ''APPROVED'' ''Pretzels'' ''20150304'',
          sampleRow ''Taco Van'' ''EXPIRED'' ''Tacos'' ''2016-01-01'',
          sampleRow ''Noodle Bus'' ''APPROVED'' ''Noodles'' ''20170101'']"

subsection \<open>The search\<close>

text \<open>
  What the documentation of \<open>sort.Slice\<close> promises of the permutation it
  applies, for the \<open>less\<close> function of the code: the elements are the same, and
  no element is followed by one that \<open>less\<close> puts before it. The documentation
  adds that the sort is not guaranteed to be stable.
\<close>

definition sortsByLess :: "((foodTruckInfo \<Rightarrow> foodTruckInfo \<Rightarrow> bool) \<Rightarrow> foodTruckInfo list \<Rightarrow> foodTruckInfo list) \<Rightarrow> bool" where
  "sortsByLess srt =
     (\<forall>xs. mset (srt newer xs) = mset xs \<and> sorted_wrt (\<lambda>a b. \<not> newer b a) (srt newer xs))"

text \<open>
  A sorter that keeps this promise: \<open>insertionSort\<close> puts an element before the
  elements it ties with and so keeps ties in their order.
\<close>

fun insertBefore :: "('a \<Rightarrow> 'a \<Rightarrow> bool) \<Rightarrow> 'a \<Rightarrow> 'a list \<Rightarrow> 'a list" where
  "insertBefore lessFn x [] = [x]"
| "insertBefore lessFn x (y # ys) =
     (if lessFn y x then y # insertBefore lessFn x ys else x # y # ys)"

definition insertionSort :: "('a \<Rightarrow> 'a \<Rightarrow> bool) \<Rightarrow> 'a list \<Rightarrow> 'a list" where
  "insertionSort lessFn xs = foldr (insertBefore lessFn) xs []"

text \<open>Values for the concrete instances.\<close>

definition sampleFormat :: "float64 \<Rightarrow> string" where
  "sampleFormat f =
     (if f = Finite 37.79 then ''37.790000''
      else if f = Finite (- 122.39) then ''-122.390000''
      else ''0.000000'')"

definition sampleLib :: stdlib where
  "sampleLib = \<lparr> sortAlgorithm = insertionSort, unicodeToLower = (\<lambda>s. s), formatFloat = sampleFormat \<rparr>"

definition sampleTruck :: "string \<Rightarrow> string \<Rightarrow> uint \<Rightarrow> foodTruckInfo" where
  "sampleTruck name items recv =
     \<lparr> Name = name, FacilityType = ''Truck'', Address = ''1 MAIN ST'', Status = ''APPROVED'',
       FoodItems = items, LatLon = ''37.79,-122.39'', Received = recv \<rparr>"

definition failingRetriever :: distanceMatrixRetriever where
  "failingRetriever i r = Inl (ExternalError ''REQUEST_DENIED'')"

definition truckA :: foodTruckInfo where "truckA = sampleTruck ''Pretzel Cart'' ''Hot Pretzels'' 20150304"
definition truckB :: foodTruckInfo where "truckB = sampleTruck ''Noodle Bus'' ''Noodles'' 20200101"
definition truckC :: foodTruckInfo where "truckC = sampleTruck ''Taco Van'' ''Tacos: burritos'' 20150304"

text \<open>
  Thirteen records for the newest-first sort: twelve of the same \<open>Received\<close>, then
  one that is newer; \<open>reorderedTrucks\<close> is the order \<open>sort.Slice\<close> leaves them in.
  \<open>pdqsortLib\<close> sorts as the Go library does (\<open>sort_Slice_pdqsort\<close>); where that
  gives \<open>None\<close> the slice stays as it is, which does not happen on these records
  (lemma \<open>pdqsort13\<close>).
\<close>

definition tiedTruck :: "string \<Rightarrow> foodTruckInfo" where
  "tiedTruck name = sampleTruck name ''Tacos'' 20150304"

definition newestTruck :: foodTruckInfo where
  "newestTruck = sampleTruck ''Newest'' ''Tacos'' 20200101"

definition thirteenTrucks :: "foodTruckInfo list" where
  "thirteenTrucks =
     [tiedTruck ''A'', tiedTruck ''B'', tiedTruck ''C'', tiedTruck ''D'', tiedTruck ''E'', tiedTruck ''F'',
      tiedTruck ''G'', tiedTruck ''H'', tiedTruck ''I'', tiedTruck ''J'', tiedTruck ''K'', tiedTruck ''L'',
      newestTruck]"

definition reorderedTrucks :: "foodTruckInfo list" where
  "reorderedTrucks =
     [newestTruck, tiedTruck ''G'', tiedTruck ''C'', tiedTruck ''D'', tiedTruck ''E'', tiedTruck ''F'',
      tiedTruck ''A'', tiedTruck ''H'', tiedTruck ''I'', tiedTruck ''J'', tiedTruck ''K'', tiedTruck ''L'',
      tiedTruck ''B'']"

definition pdqsortLib :: stdlib where
  "pdqsortLib =
     \<lparr> sortAlgorithm = (\<lambda>lessFn x. case sort_Slice_pdqsort lessFn x of Some y \<Rightarrow> y | None \<Rightarrow> x),
       unicodeToLower = (\<lambda>s. s), formatFloat = sampleFormat \<rparr>"

subsection \<open>The distance filter\<close>

text \<open>
  An element keeps its candidate when its status is \<open>OK\<close> and its distance is
  below 1000 metres. \<open>retained\<close> are the candidates that the elements \<open>es\<close> of one
  response keep, for a batch that starts at \<open>startIdx\<close>: element \<open>v\<close> stands for
  the candidate at \<open>startIdx + v\<close>.
\<close>

definition walkable :: "DistanceMatrixElement \<Rightarrow> bool" where
  "walkable elem = (ElementStatus elem = ''OK'' \<and> Meters elem < 1000)"

definition retained :: "foodTruckInfo list \<Rightarrow> nat \<Rightarrow> DistanceMatrixElement list \<Rightarrow> foodTruckInfo list" where
  "retained allTrucks startIdx es =
     map (\<lambda>v. allTrucks ! (startIdx + v)) (filter (\<lambda>v. walkable (es ! v)) [0..<length es])"

text \<open>
  \<open>answers d origins allTrucks i es\<close>: the service answers the request of batch
  \<open>i\<close> without error, with a response whose first row holds the elements \<open>es\<close>,
  none of them nil. \<open>inRange\<close>: no element of \<open>es\<close> that keeps its candidate
  points past the end of the candidate list.
\<close>

definition answers :: "distanceMatrixRetriever \<Rightarrow> string list \<Rightarrow> foodTruckInfo list \<Rightarrow> nat \<Rightarrow> DistanceMatrixElement list \<Rightarrow> bool" where
  "answers d origins allTrucks i es =
     (case d i (batchRequest origins allTrucks i) of
        Inl err \<Rightarrow> False
      | Inr None \<Rightarrow> False
      | Inr (Some resp) \<Rightarrow>
          (case Rows resp of [] \<Rightarrow> False | row # _ \<Rightarrow> Elements row = map Some es))"

definition inRange :: "foodTruckInfo list \<Rightarrow> nat \<Rightarrow> DistanceMatrixElement list \<Rightarrow> bool" where
  "inRange allTrucks startIdx es =
     (\<forall>v<length es. walkable (es ! v) \<longrightarrow> startIdx + v < length allTrucks)"

text \<open>
  Services for the concrete instances: one that answers every destination by
  its coordinates, one that fails from its second call on, and (above) one that
  fails at once.
\<close>

definition sampleElement :: "string \<Rightarrow> DistanceMatrixElement" where
  "sampleElement dest =
     (if dest = ''37.79,-122.39'' then \<lparr> ElementStatus = ''OK'', Meters = 712 \<rparr>
      else if dest = ''37.80,-122.41'' then \<lparr> ElementStatus = ''OK'', Meters = 1000 \<rparr>
      else \<lparr> ElementStatus = ''NOT_FOUND'', Meters = 0 \<rparr>)"

definition sampleRetriever :: distanceMatrixRetriever where
  "sampleRetriever i r =
     Inr (Some \<lparr> Rows = [\<lparr> Elements = map (\<lambda>dest. Some (sampleElement dest)) (Destinations r) \<rparr>] \<rparr>)"

definition flakyRetriever :: distanceMatrixRetriever where
  "flakyRetriever i r = (if i = 0 then sampleRetriever i r else Inl (ExternalError ''OVER_QUERY_LIMIT''))"

definition truckD :: foodTruckInfo where "truckD = truckB \<lparr> LatLon := ''37.80,-122.41'' \<rparr>"
definition truckE :: foodTruckInfo where "truckE = truckC \<lparr> LatLon := ''0,0'' \<rparr>"

text \<open>Thirty records, every seventh of them near the origin by its coordinates.\<close>

definition numberedTruck :: "nat \<Rightarrow> foodTruckInfo" where
  "numberedTruck k =
     (sampleTruck ''Cart'' ''Tacos'' (of_nat k))
       \<lparr> LatLon := (if k mod 7 = 0 then ''37.79,-122.39'' else ''37.80,-122.41'') \<rparr>"

section \<open>Properties of readFoodTruckData\<close>

lemma readRows_wellFormed:
  "\<forall>line\<in>set rows. wellFormedRow line \<Longrightarrow>
   readRows rows acc = Return (Inr (acc @ map recordOfRow (filter (\<lambda>line. line ! 10 = ''APPROVED'') rows)))"
proof (induction rows arbitrary: acc)
  case Nil
  then show ?case by simp
next
  case (Cons line rest)
  from Cons.prems have wf: "20 < length line" "\<not> isl (Atoi (line ! 20))" and rest: "\<forall>l\<in>set rest. wellFormedRow l"
    by (simp_all add: wellFormedRow_def)
  from wf(2) obtain recv where recv: "Atoi (line ! 20) = Inr recv"
    by (cases "Atoi (line ! 20)") simp_all
  have info: "recordOfRow line = rowInfo line recv"
    by (simp add: recordOfRow_def recv)
  have status: "Status (rowInfo line recv) = line ! 10"
    by (simp add: rowInfo_def)
  show ?case
    using wf(1) recv info status Cons.IH [OF rest] by (simp add: Let_def)
qed

lemma readRows_malformed:
  assumes "\<forall>line\<in>set pre. wellFormedRow line" and "20 < length bad" and "Atoi (bad ! 20) = Inl e"
  shows "readRows (pre @ bad # post) acc = Return (Inl e)"
  using assms
proof (induction pre arbitrary: acc)
  case Nil
  then show ?case by simp
next
  case (Cons line rest)
  from Cons.prems have wf: "20 < length line" "\<not> isl (Atoi (line ! 20))" and rest: "\<forall>l\<in>set rest. wellFormedRow l"
    by (simp_all add: wellFormedRow_def)
  from wf(2) obtain recv where recv: "Atoi (line ! 20) = Inr recv"
    by (cases "Atoi (line ! 20)") simp_all
  show ?case
    using wf(1) recv Cons.IH [OF rest Cons.prems(2,3)] by (simp add: Let_def)
qed

lemma Atoi_negative:
  assumes "ds \<noteq> []" and "list_all isDigit ds" and "digitsVal ds \<le> 2 ^ 63"
  shows "Atoi (CHR ''-'' # ds) = Inr (- int (digitsVal ds))"
proof -
  have "int (digitsVal ds) \<le> 2 ^ 63"
    using assms(3) by (metis of_nat_le_iff of_nat_numeral of_nat_power)
  then show ?thesis
    using assms(1,2) by (simp add: Atoi_def Let_def)
qed

lemma uint_negative:
  assumes "0 < k" and "k \<le> 2 ^ 63"
  shows "uint (word_of_int (- k) :: uint) = 2 ^ 64 - k"
proof -
  have "uint (word_of_int (- k) :: uint) = (- k) mod 2 ^ LENGTH(64)"
    by (rule uint_word_of_int)
  also have "\<dots> = 2 ^ 64 - k"
    using assms by (simp add: zmod_zminus1_eq_if)
  finally show ?thesis .
qed

lemma uint_nonnegative:
  assumes "0 \<le> m" and "m < 2 ^ 63"
  shows "uint (word_of_int m :: uint) = m"
  using assms by (simp add: uint_word_of_int)

lemma wellFormed_sampleRows: "\<forall>line\<in>set sampleRows. wellFormedRow line"
  by (simp add: sampleRows_def sampleRow_def wellFormedRow_def Atoi_def isDigit_def digitsVal_def)

text \<open>
  Claim C4. On a file whose data rows all have at least 21 fields and a column 20
  that \<open>strconv.Atoi\<close> accepts, \<open>readFoodTruckData\<close> skips the header row and
  returns, with a nil error, the records of exactly the rows whose column 10 is
  the byte string \<open>APPROVED\<close>, in the order of the file. Rows with another
  status, \<open>approved\<close> in lower case included, are left out and cause no error.
\<close>

theorem readFoodTruckData_approved_only:
  assumes "readCSV filename = Inr (header # rows)"
    and "\<forall>line\<in>set rows. wellFormedRow line"
  shows "readFoodTruckData readCSV filename =
           Return (Inr (map recordOfRow (filter (\<lambda>line. line ! 10 = ''APPROVED'') rows)))"
  using assms(1) readRows_wellFormed [OF assms(2), of "[]"]
  by (simp add: readFoodTruckData_def)

theorem readFoodTruckData_approved_only_witness:
  "readFoodTruckData sampleCSV ''permits.csv'' =
     Return (Inr [\<lparr> Name = ''Pretzel Cart'', FacilityType = ''Truck'', Address = ''1 MAIN ST'',
                      Status = ''APPROVED'', FoodItems = ''Pretzels: hot dogs'',
                      LatLon = ''37.79,-122.39'', Received = 20150304 \<rparr>,
                  \<lparr> Name = ''Noodle Bus'', FacilityType = ''Truck'', Address = ''1 MAIN ST'',
                      Status = ''APPROVED'', FoodItems = ''Noodles'',
                      LatLon = ''37.79,-122.39'', Received = 18446744073709551615 \<rparr>])"
proof -
  have csv: "sampleCSV ''permits.csv'' = Inr (sampleRow ''Applicant'' ''Status'' ''FoodItems'' ''Received'' # sampleRows)"
    by (simp add: sampleCSV_def)
  have "readFoodTruckData sampleCSV ''permits.csv'' =
          Return (Inr (map recordOfRow (filter (\<lambda>line. line ! 10 = ''APPROVED'') sampleRows)))"
    by (rule readFoodTruckData_approved_only [where readCSV = sampleCSV and filename = "''permits.csv''", OF csv wellFormed_sampleRows])
  also have "map recordOfRow (filter (\<lambda>line. line ! 10 = ''APPROVED'') sampleRows) =
     [\<lparr> Name = ''Pretzel Cart'', FacilityType = ''Truck'', Address = ''1 MAIN ST'',
                      Status = ''APPROVED'', FoodItems = ''Pretzels: hot dogs'',
                      LatLon = ''37.79,-122.39'', Received = 20150304 \<rparr>,
                  \<lparr> Name = ''Noodle Bus'', FacilityType = ''Truck'', Address = ''1 MAIN ST'',
                      Status = ''APPROVED'', FoodItems = ''Noodles'',
                      LatLon = ''37.79,-122.39'', Received = 18446744073709551615 \<rparr>]"
    by (simp add: sampleRows_def sampleRow_def recordOfRow_def rowInfo_def Atoi_def isDigit_def digitsVal_def)
  finally show ?thesis .
qed

text \<open>
  Claim C9. When every data row has at least 21 fields and the column 20 of some
  data row is refused by \<open>strconv.Atoi\<close>, \<open>readFoodTruckData\<close> returns the
  \<open>NumError\<close> of such a row and no list of records: the load is given up, the
  row is not skipped.
\<close>

theorem readFoodTruckData_malformed_freshness:
  assumes "readCSV filename = Inr (header # rows)"
    and "\<forall>line\<in>set rows. 20 < length line"
    and "\<exists>line\<in>set rows. isl (Atoi (line ! 20))"
  shows "\<exists>line\<in>set rows. isl (Atoi (line ! 20))
           \<and> readFoodTruckData readCSV filename = Return (Inl (NumError (line ! 20)))"
proof -
  from assms(3) have "\<exists>pre bad post. rows = pre @ bad # post \<and> isl (Atoi (bad ! 20)) \<and> (\<forall>l\<in>set pre. \<not> isl (Atoi (l ! 20)))"
    by (rule split_list_first_prop [THEN exE]) auto
  then obtain pre bad post where rows: "rows = pre @ bad # post"
    and bad: "isl (Atoi (bad ! 20))" and pre: "\<forall>l\<in>set pre. \<not> isl (Atoi (l ! 20))"
    by blast
  from bad have err: "Atoi (bad ! 20) = Inl (NumError (bad ! 20))"
    by (auto simp: Atoi_def Let_def split: if_splits)
  from pre assms(2) rows have wf: "\<forall>l\<in>set pre. wellFormedRow l"
    by (simp add: wellFormedRow_def)
  from assms(2) rows have len: "20 < length bad"
    by simp
  have "readFoodTruckData readCSV filename = Return (Inl (NumError (bad ! 20)))"
    using assms(1) rows readRows_malformed [OF wf len err, of post "[]"]
    by (simp add: readFoodTruckData_def)
  moreover have "bad \<in> set rows"
    using rows by simp
  ultimately show ?thesis
    using bad by blast
qed

theorem readFoodTruckData_malformed_freshness_witness:
  "readFoodTruckData brokenCSV ''permits.csv'' = Return (Inl (NumError ''2016-01-01''))"
proof -
  let ?rows = "[sampleRow ''Pretzel Cart'' ''APPROVED'' ''Pretzels'' ''20150304'',
          sampleRow ''Taco Van'' ''EXPIRED'' ''Tacos'' ''2016-01-01'',
          sampleRow ''Noodle Bus'' ''APPROVED'' ''Noodles'' ''20170101'']"
  have csv: "brokenCSV ''permits.csv'' = Inr (sampleRow ''Applicant'' ''Status'' ''FoodItems'' ''Received'' # ?rows)"
    by (simp add: brokenCSV_def)
  have len: "\<forall>line\<in>set ?rows. 20 < length line"
    by (simp add: sampleRow_def)
  have bad: "\<exists>line\<in>set ?rows. isl (Atoi (line ! 20))"
    by (simp add: sampleRow_def Atoi_def isDigit_def digitsVal_def)
  from readFoodTruckData_malformed_freshness [where readCSV = brokenCSV and filename = "''permits.csv''", OF csv len bad]
  obtain line where "line \<in> set ?rows" and "isl (Atoi (line ! 20))"
    and "readFoodTruckData brokenCSV ''permits.csv'' = Return (Inl (NumError (line ! 20)))"
    by blast
  then show ?thesis
    by (auto simp: sampleRow_def Atoi_def isDigit_def digitsVal_def)
qed

text \<open>
  Claim C10. A data row whose column 20 is a minus sign followed by digits, of
  absolute value \<open>d\<close> with \<open>0 < d \<le> 2^63\<close>, does not make the load fail: the
  field parses to \<open>-d\<close>, the record of the row gets \<open>Received = 2^64 - d\<close>, and
  it is newer, in the order of the newest-first sort, than every record whose
  column 20 parsed to a non-negative number.
\<close>

theorem readFoodTruckData_negative_freshness:
  assumes "readCSV filename = Inr (header # pre @ line # post)"
    and "\<forall>l\<in>set pre \<union> set post. wellFormedRow l"
    and "20 < length line"
    and "line ! 20 = CHR ''-'' # ds" and "ds \<noteq> []" and "list_all isDigit ds"
    and "0 < digitsVal ds" and "digitsVal ds \<le> 2 ^ 63"
  shows "readFoodTruckData readCSV filename =
           Return (Inr (map recordOfRow (filter (\<lambda>l. l ! 10 = ''APPROVED'') (pre @ line # post))))
         \<and> recordOfRow line = rowInfo line (- int (digitsVal ds))
         \<and> uint (Received (recordOfRow line)) = 2 ^ 64 - int (digitsVal ds)
         \<and> (\<forall>other recv. 0 \<le> recv \<and> recv < 2 ^ 63 \<longrightarrow> newer (recordOfRow line) (rowInfo other recv))"
proof -
  have parsed: "Atoi (line ! 20) = Inr (- int (digitsVal ds))"
    using assms(4) Atoi_negative [OF assms(5,6,8)] by simp
  have wf: "\<forall>l\<in>set (pre @ line # post). wellFormedRow l"
    using assms(2,3) parsed by (simp add: wellFormedRow_def ball_Un)
  have load: "readFoodTruckData readCSV filename =
           Return (Inr (map recordOfRow (filter (\<lambda>l. l ! 10 = ''APPROVED'') (pre @ line # post))))"
    using assms(1) readRows_wellFormed [OF wf, of "[]"] by (simp add: readFoodTruckData_def)
  have info: "recordOfRow line = rowInfo line (- int (digitsVal ds))"
    by (simp add: recordOfRow_def parsed)
  have k: "0 < int (digitsVal ds)" "int (digitsVal ds) \<le> 2 ^ 63"
    using assms(7,8) by (simp, metis of_nat_le_iff of_nat_numeral of_nat_power)
  have "Received (recordOfRow line) = word_of_int (- int (digitsVal ds))"
    unfolding info by (simp only: rowInfo_def foodTruckInfo.simps)
  then have big: "uint (Received (recordOfRow line)) = 2 ^ 64 - int (digitsVal ds)"
    using uint_negative [OF k] by simp
  have first: "newer (recordOfRow line) (rowInfo other recv)" if "0 \<le> recv \<and> recv < 2 ^ 63" for other recv
  proof -
    have "uint (Received (rowInfo other recv)) = recv"
      using that uint_nonnegative [of recv] by (simp add: rowInfo_def)
    then show ?thesis
      using big k(2) that by (simp add: newer_def word_less_def)
  qed
  from load info big first show ?thesis by blast
qed

theorem readFoodTruckData_negative_freshness_witness:
  "readFoodTruckData sampleCSV ''permits.csv'' =
     Return (Inr (map recordOfRow
       [sampleRow ''Pretzel Cart'' ''APPROVED'' ''Pretzels: hot dogs'' ''20150304'',
        sampleRow ''Noodle Bus'' ''APPROVED'' ''Noodles'' ''-1'']))
   \<and> recordOfRow (sampleRow ''Noodle Bus'' ''APPROVED'' ''Noodles'' ''-1'') =
       rowInfo (sampleRow ''Noodle Bus'' ''APPROVED'' ''Noodles'' ''-1'') (- 1)
   \<and> uint (Received (recordOfRow (sampleRow ''Noodle Bus'' ''APPROVED'' ''Noodles'' ''-1''))) =
       18446744073709551615
   \<and> newer (recordOfRow (sampleRow ''Noodle Bus'' ''APPROVED'' ''Noodles'' ''-1''))
        (rowInfo (sampleRow ''Pretzel Cart'' ''APPROVED'' ''Pretzels: hot dogs'' ''20150304'') 20150304)"
proof -
  let ?pre = "[sampleRow ''Pretzel Cart'' ''APPROVED'' ''Pretzels: hot dogs'' ''20150304'',
      sampleRow ''Taco Van'' ''approved'' ''Tacos'' ''20160101'',
      sampleRow ''Old Grill'' ''EXPIRED'' ''Burgers'' ''20120101'']"
  let ?line = "sampleRow ''Noodle Bus'' ''APPROVED'' ''Noodles'' ''-1''"
  have csv: "sampleCSV ''permits.csv'' =
      Inr (sampleRow ''Applicant'' ''Status'' ''FoodItems'' ''Received'' # ?pre @ ?line # [])"
    by (simp add: sampleCSV_def sampleRows_def)
  have wf: "\<forall>l\<in>set ?pre \<union> set []. wellFormedRow l"
    using wellFormed_sampleRows by (simp add: sampleRows_def)
  have len: "20 < length ?line"
    by (simp add: sampleRow_def)
  have field: "?line ! 20 = CHR ''-'' # ''1''"
    by (simp add: sampleRow_def)
  have digits: "''1'' \<noteq> []" "list_all isDigit ''1''" "0 < digitsVal ''1''" "digitsVal ''1'' \<le> 2 ^ 63"
    by (simp_all add: isDigit_def digitsVal_def)
  note inst = readFoodTruckData_negative_freshness
    [where readCSV = sampleCSV and filename = "''permits.csv''", OF csv wf len field digits]
  have d: "int (digitsVal ''1'') = 1"
    by (simp add: digitsVal_def)
  have kept: "filter (\<lambda>l. l ! 10 = ''APPROVED'') (?pre @ ?line # []) =
      [sampleRow ''Pretzel Cart'' ''APPROVED'' ''Pretzels: hot dogs'' ''20150304'', ?line]"
    by (simp add: sampleRow_def)
  have c1: "readFoodTruckData sampleCSV ''permits.csv'' =
      Return (Inr (map recordOfRow
        [sampleRow ''Pretzel Cart'' ''APPROVED'' ''Pretzels: hot dogs'' ''20150304'', ?line]))"
    using inst [THEN conjunct1] unfolding kept .
  have c2: "recordOfRow ?line = rowInfo ?line (- 1)"
    using inst [THEN conjunct2, THEN conjunct1] unfolding d .
  have c3: "uint (Received (recordOfRow ?line)) = 18446744073709551615"
    using inst [THEN conjunct2, THEN conjunct2, THEN conjunct1] unfolding d by simp
  have "(0::int) \<le> 20150304 \<and> (20150304::int) < 2 ^ 63"
    by simp
  then have c4: "newer (recordOfRow ?line)
        (rowInfo (sampleRow ''Pretzel Cart'' ''APPROVED'' ''Pretzels: hot dogs'' ''20150304'') 20150304)"
    using inst [THEN conjunct2, THEN conjunct2, THEN conjunct2] by blast
  from c1 c2 c3 c4 show ?thesis
    by (intro conjI)
qed

section \<open>Properties of searchFoodTrucks\<close>

subsection \<open>The sorters and the store\<close>

lemma mset_insertBefore: "mset (insertBefore f x ys) = add_mset x (mset ys)"
  by (induction ys) auto

lemma mset_insertionSort: "mset (insertionSort f xs) = mset xs"
  by (induction xs) (auto simp: insertionSort_def mset_insertBefore)

lemma set_insertBefore: "set (insertBefore f x ys) = insert x (set ys)"
  by (induction ys) auto

lemma sorted_insertBefore:
  "sorted_wrt (\<lambda>a b. \<not> newer b a) ys \<Longrightarrow> sorted_wrt (\<lambda>a b. \<not> newer b a) (insertBefore newer x ys)"
  by (induction ys) (auto simp: set_insertBefore newer_def)

lemma sortsByLess_insertionSort: "sortsByLess insertionSort"
  unfolding sortsByLess_def
proof (intro allI conjI)
  fix xs :: "foodTruckInfo list"
  show "mset (insertionSort newer xs) = mset xs"
    by (rule mset_insertionSort)
  show "sorted_wrt (\<lambda>a b. \<not> newer b a) (insertionSort newer xs)"
    by (induction xs) (simp_all add: insertionSort_def sorted_insertBefore)
qed

lemma deref_fromList: "fromList xs h = (r, h') \<Longrightarrow> deref h' r = xs \<and> validSlice h' r"
  by (auto simp: fromList_def split: if_splits)

lemma deref_sort_Slice:
  assumes "validSlice h sl" and "length (sortAlgorithm L f (deref h sl)) = length (deref h sl)"
  shows "deref (sort_Slice L h sl f) sl = sortAlgorithm L f (deref h sl)"
proof (cases sl)
  case NilSlice
  with assms(2) show ?thesis by simp
next
  case (Slice a off n)
  with assms(1) have a: "a < length h" and bound: "off + n \<le> length (h ! a)"
    by simp_all
  from assms(2) Slice bound have len: "length (sortAlgorithm L f (take n (drop off (h ! a)))) = n"
    by simp
  from bound have "length (take off (h ! a)) = off"
    by simp
  then show ?thesis
    using Slice a len by simp
qed

lemma searchFoodTrucks_newestFirst:
  "searchFoodTrucks L h sl d dbg term lat lon nf =
     (case searchFoodTrucks L h sl d dbg term lat lon False of
        (Return r, h0, calls) \<Rightarrow> (Return r, newestStep L nf h0 r, calls)
      | (Panic p, h0, calls) \<Rightarrow> (Panic p, h0, calls))"
  by (simp add: searchFoodTrucks_def newestStep_def split: prod.splits outcome.splits sum.splits)

lemma keywordStep_valid:
  "validSlice h sl \<Longrightarrow> keywordStep L h sl term = (r, h1) \<Longrightarrow> validSlice h1 r"
  by (auto simp: keywordStep_def dest: deref_fromList split: if_splits)

lemma searchFoodTrucks_valid:
  assumes "validSlice h sl" and "searchFoodTrucks L h sl d dbg term lat lon False = (Return r, h0, calls)"
  shows "validSlice h0 r"
  using assms
  by (auto simp: searchFoodTrucks_def newestStep_def dest: keywordStep_valid deref_fromList
      split: prod.splits outcome.splits sum.splits if_splits)

lemma sortsByLess_length: "sortsByLess srt \<Longrightarrow> length (srt newer xs) = length xs"
  by (metis sortsByLess_def size_mset)

subsection \<open>Newest first\<close>

text \<open>
  Claim C2, as amended. Let \<open>sort.Slice\<close> keep the promise of its documentation
  (\<open>sortsByLess\<close>). Whenever \<open>searchFoodTrucks\<close> returns without the newest-first
  flag, it returns with the flag too, and then the records of the result are
  in descending order of \<open>Received\<close>, \<open>Received[i] \<ge> Received[i+1]\<close> at every
  index, and are the records the result would hold without the flag. Nothing
  is said of the relative order of records of equal \<open>Received\<close>.
\<close>

theorem searchFoodTrucks_newest_descending:
  assumes "sortsByLess (sortAlgorithm L)" and "validSlice h searchList"
    and "searchFoodTrucks L h searchList d dbg searchTerm lat lon False = (Return r, h0, calls)"
  shows "\<exists>h'. searchFoodTrucks L h searchList d dbg searchTerm lat lon True = (Return r, h', calls)
           \<and> (\<forall>i. Suc i < length (deref h' r) \<longrightarrow> Received (deref h' r ! Suc i) \<le> Received (deref h' r ! i))
           \<and> sorted_wrt (\<lambda>a b. Received b \<le> Received a) (deref h' r)
           \<and> mset (deref h' r) = mset (deref h0 r)"
proof -
  let ?h' = "sort_Slice L h0 r newer"
  let ?out = "sortAlgorithm L newer (deref h0 r)"
  have run: "searchFoodTrucks L h searchList d dbg searchTerm lat lon True = (Return r, ?h', calls)"
    using assms(3) by (subst searchFoodTrucks_newestFirst) (simp add: newestStep_def)
  have valid: "validSlice h0 r"
    by (rule searchFoodTrucks_valid [OF assms(2,3)])
  have out: "deref ?h' r = ?out"
    by (rule deref_sort_Slice [OF valid sortsByLess_length [OF assms(1)]])
  have perm: "mset ?out = mset (deref h0 r)"
    using assms(1) by (simp add: sortsByLess_def)
  have "sorted_wrt (\<lambda>a b. \<not> newer b a) ?out"
    using assms(1) by (simp add: sortsByLess_def)
  then have sorted: "sorted_wrt (\<lambda>a b. Received b \<le> Received a) ?out"
    by (simp add: newer_def not_less)
  have adjacent: "Received (?out ! Suc i) \<le> Received (?out ! i)" if "Suc i < length ?out" for i
    using sorted that by (simp add: sorted_wrt_iff_nth_less)
  from run out perm sorted adjacent show ?thesis
    by auto
qed

theorem searchFoodTrucks_newest_descending_witness:
  "sortsByLess (sortAlgorithm sampleLib)
   \<and> validSlice [[truckA, truckB, truckC]] (Slice 0 0 3)
   \<and> searchFoodTrucks sampleLib [[truckA, truckB, truckC]] (Slice 0 0 3) failingRetriever False []
        (Finite 0) (Finite 0) False = (Return (Slice 0 0 3), [[truckA, truckB, truckC]], [])
   \<and> searchFoodTrucks sampleLib [[truckA, truckB, truckC]] (Slice 0 0 3) failingRetriever False []
        (Finite 0) (Finite 0) True = (Return (Slice 0 0 3), [[truckB, truckA, truckC]], [])
   \<and> sorted_wrt (\<lambda>a b. Received b \<le> Received a) [truckB, truckA, truckC]
   \<and> mset [truckB, truckA, truckC] = mset [truckA, truckB, truckC]"
proof -
  have conforms: "sortsByLess (sortAlgorithm sampleLib)"
    by (simp add: sampleLib_def sortsByLess_insertionSort)
  have valid: "validSlice [[truckA, truckB, truckC]] (Slice 0 0 3)"
    by simp
  have before: "searchFoodTrucks sampleLib [[truckA, truckB, truckC]] (Slice 0 0 3) failingRetriever False []
        (Finite 0) (Finite 0) False = (Return (Slice 0 0 3), [[truckA, truckB, truckC]], [])"
    by (simp add: searchFoodTrucks_def keywordStep_def newestStep_def)
  have after: "searchFoodTrucks sampleLib [[truckA, truckB, truckC]] (Slice 0 0 3) failingRetriever False []
        (Finite 0) (Finite 0) True = (Return (Slice 0 0 3), [[truckB, truckA, truckC]], [])"
    by (simp add: searchFoodTrucks_def keywordStep_def newestStep_def sampleLib_def insertionSort_def
        newer_def truckA_def truckB_def truckC_def sampleTruck_def)
  from searchFoodTrucks_newest_descending [OF conforms valid before]
  have "sorted_wrt (\<lambda>a b. Received b \<le> Received a) (deref [[truckB, truckA, truckC]] (Slice 0 0 3))
      \<and> mset (deref [[truckB, truckA, truckC]] (Slice 0 0 3)) = mset (deref [[truckA, truckB, truckC]] (Slice 0 0 3))"
    unfolding after by blast
  then have "sorted_wrt (\<lambda>a b. Received b \<le> Received a) [truckB, truckA, truckC]
      \<and> mset [truckB, truckA, truckC] = mset [truckA, truckB, truckC]"
    by simp
  with conforms valid before after show ?thesis
    by (intro conjI) simp_all
qed

text \<open>The run of \<open>sort.Slice\<close> on the thirteen records, step by step.\<close>

lemma list_update_Cons_numeral: "(x # xs)[numeral k := y] = x # xs[pred_numeral k := y]"
  by (simp add: numeral_eq_Suc)

lemma newer_sample [simp]:
  "newer (tiedTruck x) (tiedTruck y) = False"
  "newer newestTruck (tiedTruck y) = True"
  "newer (tiedTruck x) newestTruck = False"
  "newer newestTruck newestTruck = False"
  by (simp_all add: newer_def tiedTruck_def newestTruck_def sampleTruck_def)

lemma pivot13: "choosePivot_func newer thirteenTrucks 0 13 = (6, increasingHint)"
  by (simp add: choosePivot_func_def median_func_def order2_func_def lessAt_def quo_def thirteenTrucks_def)

lemma partial13: "partialInsertionSort_func newer thirteenTrucks 0 13 = (thirteenTrucks, False)"
  by (simp add: partialInsertionSort_func_def partialInsertionLoop.simps scanSorted.simps lessAt_def thirteenTrucks_def)

lemma partition13: "partition_func newer thirteenTrucks 0 13 6 = Some (reorderedTrucks, 1, False)"
  by (simp add: partition_func_def partitionLoop.simps scanLess.simps scanNotLess.simps lessAt_def swapAt_def
      list_update_Cons_numeral thirteenTrucks_def reorderedTrucks_def)

lemma insertion13a: "insertionSort_func newer reorderedTrucks 0 1 = reorderedTrucks"
  by (simp add: insertionSort_func_def insertionLoop.simps)

lemma insertion13b: "insertionSort_func newer reorderedTrucks 2 13 = reorderedTrucks"
  by (simp add: insertionSort_func_def insertionLoop.simps insertionShift.simps lessAt_def reorderedTrucks_def)

lemma bitsLen13: "bitsLen 13 = 4"
  by (simp add: bitsLen.simps)

lemma pdqsort13: "sort_Slice_pdqsort newer thirteenTrucks = Some reorderedTrucks"
proof -
  have left: "pdqsort_func newer reorderedTrucks 0 1 4 True True = Some reorderedTrucks"
    by (subst pdqsort_func.simps) (simp add: insertion13a)
  have right: "pdqsort_func newer reorderedTrucks 2 13 4 True False = Some reorderedTrucks"
    by (subst pdqsort_func.simps) (simp add: insertion13b)
  have "pdqsort_func newer thirteenTrucks 0 13 4 True True = Some reorderedTrucks"
    by (subst pdqsort_func.simps) (simp add: pivot13 partial13 partition13 left right quo_def)
  moreover have "length thirteenTrucks = 13"
    by (simp add: thirteenTrucks_def)
  ultimately show ?thesis
    by (simp add: sort_Slice_pdqsort_def bitsLen13)
qed

text \<open>
  Claim C2 as stated, that records of equal \<open>Received\<close> keep their relative
  order, fails: the code sorts with \<open>sort.Slice\<close>, which is not stable. On twelve
  records of the same \<open>Received\<close> followed by a newer one, \<open>sort.Slice\<close> moves the
  newer record to the front and leaves record \<open>G\<close> before record \<open>A\<close>, which
  stood before it.
\<close>

theorem searchFoodTrucks_newest_reorders_ties:
  "searchFoodTrucks pdqsortLib [thirteenTrucks] (Slice 0 0 13) failingRetriever False []
        (Finite 0) (Finite 0) False = (Return (Slice 0 0 13), [thirteenTrucks], [])
   \<and> searchFoodTrucks pdqsortLib [thirteenTrucks] (Slice 0 0 13) failingRetriever False []
        (Finite 0) (Finite 0) True = (Return (Slice 0 0 13), [reorderedTrucks], [])
   \<and> sort_Slice_pdqsort newer thirteenTrucks = Some reorderedTrucks
   \<and> deref [thirteenTrucks] (Slice 0 0 13) ! 0 = tiedTruck ''A''
   \<and> deref [thirteenTrucks] (Slice 0 0 13) ! 6 = tiedTruck ''G''
   \<and> deref [reorderedTrucks] (Slice 0 0 13) ! 1 = tiedTruck ''G''
   \<and> deref [reorderedTrucks] (Slice 0 0 13) ! 6 = tiedTruck ''A''
   \<and> Received (tiedTruck ''A'') = Received (tiedTruck ''G'')
   \<and> tiedTruck ''A'' \<noteq> tiedTruck ''G''"
proof -
  have len: "length thirteenTrucks = 13"
    by (simp add: thirteenTrucks_def)
  have before: "searchFoodTrucks pdqsortLib [thirteenTrucks] (Slice 0 0 13) failingRetriever False []
        (Finite 0) (Finite 0) False = (Return (Slice 0 0 13), [thirteenTrucks], [])"
    by (simp add: searchFoodTrucks_def keywordStep_def newestStep_def)
  have after: "searchFoodTrucks pdqsortLib [thirteenTrucks] (Slice 0 0 13) failingRetriever False []
        (Finite 0) (Finite 0) True = (Return (Slice 0 0 13), [reorderedTrucks], [])"
    using len by (simp add: searchFoodTrucks_def keywordStep_def newestStep_def pdqsortLib_def pdqsort13)
  have "deref [thirteenTrucks] (Slice 0 0 13) ! 0 = tiedTruck ''A''"
    "deref [thirteenTrucks] (Slice 0 0 13) ! 6 = tiedTruck ''G''"
    "deref [reorderedTrucks] (Slice 0 0 13) ! 1 = tiedTruck ''G''"
    "deref [reorderedTrucks] (Slice 0 0 13) ! 6 = tiedTruck ''A''"
    by (simp_all add: thirteenTrucks_def reorderedTrucks_def)
  moreover have "Received (tiedTruck ''A'') = Received (tiedTruck ''G'')" "tiedTruck ''A'' \<noteq> tiedTruck ''G''"
    by (simp_all add: tiedTruck_def sampleTruck_def)
  ultimately show ?thesis
    using before after pdqsort13 by simp
qed

subsection \<open>The caller's list\<close>

lemma searchFoodTrucks_alias:
  assumes "lat = Finite 0 \<or> lon = Finite 0"
  shows "searchFoodTrucks L h searchList d dbg [] lat lon True =
           (Return searchList, sort_Slice L h searchList newer, [])"
  using assms by (auto simp: searchFoodTrucks_def keywordStep_def newestStep_def)

text \<open>
  Claim C1 says that \<open>searchFoodTrucks\<close> leaves the list it is given unchanged.
  The code does not: with an empty search term and no coordinate (latitude or
  longitude zero), \<open>results\<close> is the caller's slice itself, and the newest-first
  sort reorders the caller's array in place. After the call the list given
  holds its records in descending order of \<open>Received\<close>, whatever their order
  was before.
\<close>

theorem searchFoodTrucks_sorts_base_in_place:
  assumes "sortsByLess (sortAlgorithm L)" and "validSlice h searchList"
    and "lat = Finite 0 \<or> lon = Finite 0"
  shows "\<exists>h'. searchFoodTrucks L h searchList d dbg [] lat lon True = (Return searchList, h', [])
           \<and> deref h' searchList = sortAlgorithm L newer (deref h searchList)
           \<and> sorted_wrt (\<lambda>a b. Received b \<le> Received a) (deref h' searchList)"
proof -
  have "deref (sort_Slice L h searchList newer) searchList = sortAlgorithm L newer (deref h searchList)"
    by (rule deref_sort_Slice [OF assms(2) sortsByLess_length [OF assms(1)]])
  moreover have "sorted_wrt (\<lambda>a b. Received b \<le> Received a) (sortAlgorithm L newer (deref h searchList))"
    using assms(1) by (simp add: sortsByLess_def newer_def not_less)
  ultimately show ?thesis
    using searchFoodTrucks_alias [OF assms(3)] by simp
qed

theorem searchFoodTrucks_sorts_base_in_place_witness:
  "fst (snd (searchFoodTrucks sampleLib [[truckA, truckB]] (Slice 0 0 2) failingRetriever False []
        (Finite 0) (Finite 0) True)) = [[truckB, truckA]]
   \<and> deref [[truckA, truckB]] (Slice 0 0 2) = [truckA, truckB]
   \<and> deref [[truckB, truckA]] (Slice 0 0 2) = [truckB, truckA]
   \<and> \<not> sorted_wrt (\<lambda>a b. Received b \<le> Received a) [truckA, truckB]
   \<and> sorted_wrt (\<lambda>a b. Received b \<le> Received a) [truckB, truckA]"
proof -
  have conforms: "sortsByLess (sortAlgorithm sampleLib)"
    by (simp add: sampleLib_def sortsByLess_insertionSort)
  have valid: "validSlice [[truckA, truckB]] (Slice 0 0 2)"
    by simp
  have after: "searchFoodTrucks sampleLib [[truckA, truckB]] (Slice 0 0 2) failingRetriever False []
        (Finite 0) (Finite 0) True = (Return (Slice 0 0 2), [[truckB, truckA]], [])"
    by (simp add: searchFoodTrucks_def keywordStep_def newestStep_def sampleLib_def insertionSort_def
        newer_def truckA_def truckB_def sampleTruck_def)
  from searchFoodTrucks_sorts_base_in_place [OF conforms valid disjI1 [OF refl],
      where d = failingRetriever and dbg = False and lon = "Finite 0"]
  have "sorted_wrt (\<lambda>a b. Received b \<le> Received a) (deref [[truckB, truckA]] (Slice 0 0 2))"
    unfolding after by blast
  then have "sorted_wrt (\<lambda>a b. Received b \<le> Received a) [truckB, truckA]"
    by simp
  moreover have "\<not> sorted_wrt (\<lambda>a b. Received b \<le> Received a) [truckA, truckB]"
    by (simp add: truckA_def truckB_def sampleTruck_def)
  ultimately show ?thesis
    using after by simp
qed

text \<open>
  On every other path the arrays that exist before the call, the caller's list
  among them, are the same after it: the result is then a fresh array.
\<close>

lemma take_sort_Slice_fresh:
  assumes "fromList xs h = (r, h1)"
  shows "take (length h) (sort_Slice L h1 r f) = h"
  using assms by (auto simp: fromList_def split: if_splits)

lemma searchFoodTrucks_frame:
  assumes "searchTerm \<noteq> [] \<or> (lat \<noteq> Finite 0 \<and> lon \<noteq> Finite 0) \<or> \<not> newestFirst"
  shows "take (length h) (fst (snd (searchFoodTrucks L h searchList d dbg searchTerm lat lon newestFirst))) = h"
proof -
  obtain r h1 where k: "keywordStep L h searchList searchTerm = (r, h1)"
    by (cases "keywordStep L h searchList searchTerm")
  have h1: "take (length h) h1 = h"
    using k by (auto simp: keywordStep_def fromList_def split: if_splits)
  have len: "length h \<le> length h1"
    using k by (auto simp: keywordStep_def fromList_def split: if_splits)
  have fresh: "take (length h) (sort_Slice L h2 r' f) = h"
    if "fromList ws h1 = (r', h2)" for ws r' h2 f
  proof -
    have "take (length h1) (sort_Slice L h2 r' f) = h1"
      by (rule take_sort_Slice_fresh [OF that])
    then have "take (length h) (take (length h1) (sort_Slice L h2 r' f)) = h"
      using h1 by simp
    then show ?thesis
      using len by (simp add: min_absorb1)
  qed
  have fresh0: "take (length h) h2 = h" if "fromList ws h1 = (r', h2)" for ws r' h2
    using that h1 len by (auto simp: fromList_def split: if_splits)
  have kw: "take (length h) (sort_Slice L h1 r f) = h" if "searchTerm \<noteq> []" for f
    using that k take_sort_Slice_fresh [of "searchLoop L searchTerm (deref h searchList) []" h r h1 L f]
    by (simp add: keywordStep_def)
  show ?thesis
    using assms k h1 kw fresh fresh0
    by (auto simp: searchFoodTrucks_def newestStep_def split: prod.splits outcome.splits sum.splits)
qed

subsection \<open>The keyword step\<close>

lemma Contains_iff: "Contains s substr \<longleftrightarrow> (\<exists>pre post. s = pre @ substr @ post)"
proof (induction s)
  case Nil
  then show ?case by simp
next
  case (Cons c s)
  have "(\<exists>pre post. c # s = pre @ substr @ post) \<longleftrightarrow>
        (\<exists>post. c # s = substr @ post) \<or> (\<exists>pre post. s = pre @ substr @ post)"
    by (auto simp: Cons_eq_append_conv)
  then show ?case
    using Cons.IH by (simp add: prefix_def)
qed

lemma searchLoop_filter:
  "searchLoop L searchTerm xs acc =
     acc @ filter (\<lambda>truck. Contains (ToLower L (FoodItems truck)) (ToLower L searchTerm)) xs"
  by (induction xs arbitrary: acc) simp_all

text \<open>
  Claim C5. With a non-empty search term, the keyword step yields exactly the
  records of the list given, in its order, whose \<open>FoodItems\<close>, lowered by
  \<open>strings.ToLower\<close>, contains the lowered search term as a run of bytes; for
  ASCII text the lowering is that of the letters \<open>A-Z\<close>. With no coordinate and
  no sorting this is what \<open>searchFoodTrucks\<close> returns. A search term that
  matches no record gives an empty result and no panic.
\<close>

theorem searchFoodTrucks_keyword_filter:
  assumes "searchTerm \<noteq> []"
  shows "\<exists>r h1. keywordStep L h searchList searchTerm = (r, h1)
           \<and> searchFoodTrucks L h searchList d dbg searchTerm (Finite 0) (Finite 0) False = (Return r, h1, [])
           \<and> deref h1 r =
               filter (\<lambda>truck. \<exists>pre post. ToLower L (FoodItems truck) = pre @ ToLower L searchTerm @ post)
                 (deref h searchList)
           \<and> (isASCII searchTerm \<and> (\<forall>truck\<in>set (deref h searchList). isASCII (FoodItems truck)) \<longrightarrow>
                deref h1 r =
                  filter (\<lambda>truck. \<exists>pre post. map lowerASCII (FoodItems truck) = pre @ map lowerASCII searchTerm @ post)
                    (deref h searchList))"
proof -
  let ?found = "searchLoop L searchTerm (deref h searchList) []"
  obtain r h1 where k: "keywordStep L h searchList searchTerm = (r, h1)"
    by (cases "keywordStep L h searchList searchTerm")
  then have "fromList ?found h = (r, h1)"
    using assms by (simp add: keywordStep_def)
  then have "deref h1 r = ?found"
    by (simp add: deref_fromList)
  then have content: "deref h1 r =
      filter (\<lambda>truck. \<exists>pre post. ToLower L (FoodItems truck) = pre @ ToLower L searchTerm @ post)
        (deref h searchList)"
    by (simp add: searchLoop_filter Contains_iff)
  have ascii: "deref h1 r =
      filter (\<lambda>truck. \<exists>pre post. map lowerASCII (FoodItems truck) = pre @ map lowerASCII searchTerm @ post)
        (deref h searchList)"
    if "isASCII searchTerm \<and> (\<forall>truck\<in>set (deref h searchList). isASCII (FoodItems truck))"
    unfolding content using that by (intro filter_cong) (simp_all add: ToLower_def)
  have run: "searchFoodTrucks L h searchList d dbg searchTerm (Finite 0) (Finite 0) False = (Return r, h1, [])"
    using k by (simp add: searchFoodTrucks_def newestStep_def)
  from k run content ascii show ?thesis
    by blast
qed


theorem searchFoodTrucks_keyword_filter_witness:
  "''PRETZ'' \<noteq> []
   \<and> searchFoodTrucks sampleLib [[truckA, truckB, truckC]] (Slice 0 0 3) failingRetriever False ''PRETZ''
        (Finite 0) (Finite 0) False = (Return (Slice 1 0 1), [[truckA, truckB, truckC], [truckA]], [])
   \<and> filter (\<lambda>truck. \<exists>pre post. ToLower sampleLib (FoodItems truck) = pre @ ToLower sampleLib ''PRETZ'' @ post)
        [truckA, truckB, truckC] = [truckA]
   \<and> searchFoodTrucks sampleLib [[truckA, truckB, truckC]] (Slice 0 0 3) failingRetriever False ''XXX''
        (Finite 0) (Finite 0) False = (Return NilSlice, [[truckA, truckB, truckC]], [])"
proof -
  have nonempty: "''PRETZ'' \<noteq> []"
    by simp
  have step: "keywordStep sampleLib [[truckA, truckB, truckC]] (Slice 0 0 3) ''PRETZ'' =
      (Slice 1 0 1, [[truckA, truckB, truckC], [truckA]])"
    by (simp add: keywordStep_def fromList_def sampleLib_def ToLower_def isASCII_def lowerASCII_def
        truckA_def truckB_def truckC_def sampleTruck_def char_of_eq_iff)
  from searchFoodTrucks_keyword_filter [OF nonempty, of sampleLib "[[truckA, truckB, truckC]]" "Slice 0 0 3" failingRetriever False]
  have found: "searchFoodTrucks sampleLib [[truckA, truckB, truckC]] (Slice 0 0 3) failingRetriever False ''PRETZ''
        (Finite 0) (Finite 0) False = (Return (Slice 1 0 1), [[truckA, truckB, truckC], [truckA]], [])"
    and content: "deref [[truckA, truckB, truckC], [truckA]] (Slice 1 0 1) =
      filter (\<lambda>truck. \<exists>pre post. ToLower sampleLib (FoodItems truck) = pre @ ToLower sampleLib ''PRETZ'' @ post)
        (deref [[truckA, truckB, truckC]] (Slice 0 0 3))"
    unfolding step by blast+
  from content have matches: "filter (\<lambda>truck. \<exists>pre post. ToLower sampleLib (FoodItems truck) = pre @ ToLower sampleLib ''PRETZ'' @ post)
        [truckA, truckB, truckC] = [truckA]"
    by simp
  have none: "searchFoodTrucks sampleLib [[truckA, truckB, truckC]] (Slice 0 0 3) failingRetriever False ''XXX''
        (Finite 0) (Finite 0) False = (Return NilSlice, [[truckA, truckB, truckC]], [])"
    by (simp add: searchFoodTrucks_def newestStep_def keywordStep_def fromList_def sampleLib_def ToLower_def
        isASCII_def lowerASCII_def truckA_def truckB_def truckC_def sampleTruck_def char_of_eq_iff)
  from nonempty found matches none show ?thesis
    by (intro conjI)
qed

section \<open>Properties of getWalkableTrucks\<close>

subsection \<open>The loops\<close>

lemma numRequests_div: "numRequests n = (n + 24) div 25"
  unfolding numRequests_def maxDestinationsPerRequest_def by linarith

lemma numRequests_less: "i < numRequests n \<longleftrightarrow> i * 25 < n"
  unfolding numRequests_div by linarith

lemma keepWalkable_Some:
  "(\<forall>k<length es. walkable (es ! k) \<longrightarrow> s + v + k < length T) \<Longrightarrow>
   keepWalkable T s v (map Some es) acc =
     Return (acc @ map (\<lambda>k. T ! (s + v + k)) (filter (\<lambda>k. walkable (es ! k)) [0..<length es]))"
proof (induction es arbitrary: v acc)
  case Nil
  then show ?case by simp
next
  case (Cons e es)
  have tl: "\<forall>k<length es. walkable (es ! k) \<longrightarrow> s + Suc v + k < length T"
    using Cons.prems by fastforce
  have hd: "walkable e \<Longrightarrow> s + v < length T"
    using Cons.prems by fastforce
  have shift: "map (\<lambda>k. T ! (s + v + k)) (filter (\<lambda>k. walkable ((e # es) ! k)) (map Suc [0..<length es])) =
               map (\<lambda>k. T ! (s + Suc v + k)) (filter (\<lambda>k. walkable (es ! k)) [0..<length es])"
    by (simp add: filter_map comp_def)
  have upt: "[0..<length (e # es)] = 0 # map Suc [0..<length es]"
    by (simp add: upt_conv_Cons map_Suc_upt del: upt_Suc)
  show ?case
    unfolding upt using hd shift Cons.IH [OF tl]
    by (simp add: walkable_def)
qed

lemma processBatch_answers:
  assumes "answers d origins T i es" and "inRange T (i * maxDestinationsPerRequest) es"
  shows "processBatch d origins T i acc = Return (acc @ retained T (i * maxDestinationsPerRequest) es)"
proof -
  from assms(1) obtain resp row rest where
    "d i (batchRequest origins T i) = Inr (Some resp)" "Rows resp = row # rest" "Elements row = map Some es"
    by (auto simp: answers_def split: sum.splits option.splits list.splits)
  then show ?thesis
    using keepWalkable_Some [of es "i * maxDestinationsPerRequest" 0 T acc] assms(2)
    by (simp add: processBatch_def retained_def inRange_def)
qed

lemma requestLoop_answers:
  assumes "\<forall>i<n. i * maxDestinationsPerRequest \<le> length T"
    and "\<forall>i. i0 \<le> i \<and> i < n \<longrightarrow> answers d origins T i (es i) \<and> inRange T (i * maxDestinationsPerRequest) (es i)"
  shows "requestLoop d origins T n i0 acc calls =
           (Return (Inr (acc @ concat (map (\<lambda>i. retained T (i * maxDestinationsPerRequest) (es i)) [i0..<n]))),
            calls @ map (batchRequest origins T) [i0..<n])"
  using assms(2)
proof (induction "n - i0" arbitrary: i0 acc calls)
  case 0
  then show ?case
    by (simp add: requestLoop.simps)
next
  case (Suc m)
  then have less: "i0 < n" and m: "m = n - Suc i0"
    by simp_all
  have bound: "\<not> i0 * maxDestinationsPerRequest > min (length T) (i0 * maxDestinationsPerRequest + maxDestinationsPerRequest)"
    using assms(1) [rule_format, OF less] by linarith
  have here: "processBatch d origins T i0 acc = Return (acc @ retained T (i0 * maxDestinationsPerRequest) (es i0))"
    using Suc.prems less by (intro processBatch_answers) simp_all
  have rest: "\<forall>i. Suc i0 \<le> i \<and> i < n \<longrightarrow> answers d origins T i (es i) \<and> inRange T (i * maxDestinationsPerRequest) (es i)"
    using Suc.prems by simp
  have upt: "[i0..<n] = i0 # [Suc i0..<n]"
    using less by (simp add: upt_conv_Cons)
  show ?case
    by (subst requestLoop.simps) (simp add: less bound here Suc.hyps(1) [OF m rest] upt)
qed

lemma requestLoop_error:
  assumes "\<forall>i<n. i * maxDestinationsPerRequest \<le> length T"
    and "i0 \<le> k" and "k < n"
    and "\<forall>i. i0 \<le> i \<and> i < k \<longrightarrow> answers d origins T i (es i) \<and> inRange T (i * maxDestinationsPerRequest) (es i)"
    and "d k (batchRequest origins T k) = Inl err"
  shows "requestLoop d origins T n i0 acc calls =
           (Panic (PanicError err), calls @ map (batchRequest origins T) [i0..<Suc k])"
  using assms(2,4)
proof (induction "k - i0" arbitrary: i0 acc calls)
  case 0
  then have eq: "i0 = k"
    by simp
  have bound: "\<not> k * maxDestinationsPerRequest > min (length T) (k * maxDestinationsPerRequest + maxDestinationsPerRequest)"
    using assms(1) [rule_format, OF assms(3)] by linarith
  have "processBatch d origins T k acc = Panic (PanicError err)"
    using assms(5) by (simp add: processBatch_def)
  then show ?case
    unfolding eq by (subst requestLoop.simps) (simp add: assms(3) bound)
next
  case (Suc m)
  then have less: "i0 < k" and m: "m = k - Suc i0"
    by simp_all
  then have less_n: "i0 < n"
    using assms(3) by simp
  have bound: "\<not> i0 * maxDestinationsPerRequest > min (length T) (i0 * maxDestinationsPerRequest + maxDestinationsPerRequest)"
    using assms(1) [rule_format, OF less_n] by linarith
  have here: "processBatch d origins T i0 acc = Return (acc @ retained T (i0 * maxDestinationsPerRequest) (es i0))"
    using Suc.prems less by (intro processBatch_answers) simp_all
  have rest: "\<forall>i. Suc i0 \<le> i \<and> i < k \<longrightarrow> answers d origins T i (es i) \<and> inRange T (i * maxDestinationsPerRequest) (es i)"
    using Suc.prems by simp
  have upt: "[i0..<Suc k] = i0 # [Suc i0..<Suc k]"
    using less by (simp add: upt_conv_Cons del: upt_Suc)
  have next_le: "Suc i0 \<le> k"
    using less by simp
  show ?case
    unfolding upt
    by (subst requestLoop.simps) (simp add: less_n bound here Suc.hyps(1) [OF m next_le rest] del: upt_Suc)
qed

lemma requestLoop_no_error_return:
  "fst (requestLoop d origins T n i acc calls) \<noteq> Return (Inl e)"
proof (induction d origins T n i acc calls rule: requestLoop.induct)
  case (1 d origins T n i acc calls)
  show ?case
    using "1.IH"
    by (subst requestLoop.simps) (auto split: outcome.splits)
qed

lemma requestLoop_calls:
  "\<exists>more. snd (requestLoop d origins T n i acc calls) = calls @ more"
proof (induction d origins T n i acc calls rule: requestLoop.induct)
  case (1 d origins T n i acc calls)
  show ?case
    using "1.IH"
    by (subst requestLoop.simps) (auto split: outcome.splits)
qed

lemma batches_in_bounds: "\<forall>i<numRequests (length T). i * maxDestinationsPerRequest \<le> length T"
  by (simp add: numRequests_less maxDestinationsPerRequest_def)

lemma getWalkableTrucks_answers:
  assumes "\<forall>i<numRequests (length allTrucks).
             answers d (origin L lat lon) allTrucks i (es i) \<and> inRange allTrucks (i * maxDestinationsPerRequest) (es i)"
  shows "getWalkableTrucks L d allTrucks lat lon debugging =
           (Return (Inr (concat (map (\<lambda>i. retained allTrucks (i * maxDestinationsPerRequest) (es i))
                                   [0..<numRequests (length allTrucks)]))),
            map (batchRequest (origin L lat lon) allTrucks) [0..<numRequests (length allTrucks)])"
  using requestLoop_answers [OF batches_in_bounds, of 0 allTrucks d "origin L lat lon" es "[]" "[]"] assms
  by (simp add: getWalkableTrucks_def origin_def)

lemma answers_sampleRetriever:
  "answers sampleRetriever origins T i (map sampleElement (Destinations (batchRequest origins T i)))"
  by (simp add: answers_def sampleRetriever_def)

subsection \<open>Which candidates are kept\<close>

text \<open>
  Claim C6. Let every call of the service be answered without error, by elements
  none of which is nil and none of which keeps a candidate past the end of the
  list. Then \<open>getWalkableTrucks\<close> returns, with a nil error, for each batch in
  turn the candidates at \<open>batch start + v\<close> for exactly the positions \<open>v\<close> of the
  response whose element has status \<open>OK\<close> and a distance below 1000 metres.
  An element with another status, or with a distance of 1000 metres or more,
  leaves its candidate out and raises nothing.
\<close>

theorem getWalkableTrucks_retains_walkable:
  assumes "\<forall>i<numRequests (length allTrucks).
             answers d (origin L lat lon) allTrucks i (es i) \<and> inRange allTrucks (i * maxDestinationsPerRequest) (es i)"
  shows "fst (getWalkableTrucks L d allTrucks lat lon debugging) =
           Return (Inr (concat (map (\<lambda>i. retained allTrucks (i * maxDestinationsPerRequest) (es i))
                                  [0..<numRequests (length allTrucks)])))
         \<and> (\<forall>i startIdx. retained allTrucks startIdx (es i) =
               map (\<lambda>v. allTrucks ! (startIdx + v))
                 (filter (\<lambda>v. ElementStatus (es i ! v) = ''OK'' \<and> Meters (es i ! v) < 1000) [0..<length (es i)]))"
  using getWalkableTrucks_answers [OF assms] by (simp add: retained_def walkable_def)

theorem getWalkableTrucks_retains_walkable_witness:
  "fst (getWalkableTrucks sampleLib sampleRetriever [truckA, truckD, truckE, truckB] (Finite 37.79) (Finite (- 122.39)) False) =
     Return (Inr [truckA, truckB])"
proof -
  let ?T = "[truckA, truckD, truckE, truckB]"
  let ?es = "\<lambda>i::nat. map sampleElement (map LatLon ?T)"
  have one: "numRequests (length ?T) = 1"
    by (simp add: numRequests_div)
  have "answers sampleRetriever (origin sampleLib (Finite 37.79) (Finite (- 122.39))) ?T 0 (?es 0)"
    by (simp add: answers_def sampleRetriever_def batchRequest_def maxDestinationsPerRequest_def)
  moreover have "inRange ?T (0 * maxDestinationsPerRequest) (?es 0)"
    by (simp add: inRange_def)
  ultimately have "\<forall>i<numRequests (length ?T).
      answers sampleRetriever (origin sampleLib (Finite 37.79) (Finite (- 122.39))) ?T i (?es i)
      \<and> inRange ?T (i * maxDestinationsPerRequest) (?es i)"
    unfolding one by simp
  from getWalkableTrucks_retains_walkable [OF this, THEN conjunct1, of False]
  have "fst (getWalkableTrucks sampleLib sampleRetriever ?T (Finite 37.79) (Finite (- 122.39)) False) =
      Return (Inr (concat (map (\<lambda>i. retained ?T (i * maxDestinationsPerRequest) (?es i)) [0..<numRequests (length ?T)])))" .
  also have "concat (map (\<lambda>i. retained ?T (i * maxDestinationsPerRequest) (?es i)) [0..<numRequests (length ?T)]) =
      [truckA, truckB]"
    unfolding one
    by (simp add: retained_def walkable_def sampleElement_def truckA_def truckB_def truckC_def truckD_def truckE_def
        sampleTruck_def upt_rec)
  finally show ?thesis .
qed

subsection \<open>The batches\<close>

lemma Destinations_batchRequest:
  "Destinations (batchRequest origins T i) = map LatLon (take 25 (drop (25 * i) T))"
  by (simp add: batchRequest_def maxDestinationsPerRequest_def Let_def min_def mult.commute)

lemma length_Destinations:
  "length (Destinations (batchRequest origins T i)) = min 25 (length T - 25 * i)"
  by (simp add: Destinations_batchRequest)

lemma concat_batches: "concat (map (\<lambda>i. take c (drop (c * i) xs)) [0..<k]) = take (c * k) xs"
proof (induction k)
  case 0
  then show ?case by simp
next
  case (Suc k)
  have "take (c * k) xs @ take c (drop (c * k) xs) = take (c * k + c) xs"
    by (simp add: take_add)
  with Suc show ?case
    by (simp add: add.commute)
qed

lemma take_drop_nth:
  "take k (drop s xs) = map ((!) xs) [s..<min (length xs) (s + k)]"
  by (rule nth_equalityI) (auto simp: min_def split: if_splits)

lemma retained_elem:
  assumes "e \<le> length T"
  shows "retained T s (map elem [s..<e]) = map ((!) T) (filter (\<lambda>j. walkable (elem j)) [s..<e])"
proof -
  have "filter (\<lambda>v. walkable (map elem [s..<e] ! v)) [0..<e - s] = filter (\<lambda>v. walkable (elem (s + v))) [0..<e - s]"
    by (rule filter_cong) simp_all
  moreover have "map (\<lambda>v. s + v) (filter (\<lambda>v. walkable (elem (s + v))) [0..<e - s]) =
      filter (\<lambda>j. walkable (elem j)) (map (\<lambda>v. s + v) [0..<e - s])"
    by (simp add: filter_map comp_def)
  moreover have "map (\<lambda>v. s + v) [0..<e - s] = [s..<e]"
    by (rule nth_equalityI) simp_all
  ultimately have "map (\<lambda>v. s + v) (filter (\<lambda>v. walkable (map elem [s..<e] ! v)) [0..<e - s]) =
      filter (\<lambda>j. walkable (elem j)) [s..<e]"
    by simp
  then have "map ((!) T) (map (\<lambda>v. s + v) (filter (\<lambda>v. walkable (map elem [s..<e] ! v)) [0..<e - s])) =
      map ((!) T) (filter (\<lambda>j. walkable (elem j)) [s..<e])"
    by simp
  then show ?thesis
    by (simp add: retained_def comp_def)
qed

lemma upt_join: "a \<le> b \<Longrightarrow> [0..<a] @ [a..<b] = [0..<b]"
  using upt_add_eq_append [of 0 a "b - a"] by simp

lemma concat_ranges: "concat (map (\<lambda>i. [c * i..<min n (c * i + c)]) [0..<k]) = [0..<min n (c * k)]"
proof (induction k)
  case 0
  then show ?case by simp
next
  case (Suc k)
  have join: "[0..<min n (c * k)] @ [c * k..<min n (c * k + c)] = [0..<min n (c * k + c)]"
  proof (cases "n \<le> c * k")
    case True
    then have "min n (c * k) = n" "min n (c * k + c) = n"
      by simp_all
    with True show ?thesis by simp
  next
    case False
    then have "min n (c * k) = c * k" "c * k \<le> min n (c * k + c)"
      by simp_all
    then show ?thesis
      by (simp only: upt_join)
  qed
  have "concat (map (\<lambda>i. [c * i..<min n (c * i + c)]) [0..<Suc k]) =
      concat (map (\<lambda>i. [c * i..<min n (c * i + c)]) [0..<k]) @ [c * k..<min n (c * k + c)]"
    by simp
  also have "\<dots> = [0..<min n (c * k + c)]"
    unfolding Suc.IH by (rule join)
  also have "c * k + c = c * Suc k"
    by simp
  finally show ?case .
qed

text \<open>
  Claim C7. Let the service answer the request of every batch without error, with
  one element for each destination, \<open>elem j\<close> being the element for candidate \<open>j\<close>.
  Then \<open>getWalkableTrucks\<close> sends exactly \<open>\<lceil>n / 25\<rceil>\<close> requests for \<open>n\<close> candidates,
  request \<open>i\<close> holding the coordinates of the candidates \<open>25 i\<close> up to \<open>25 i + 24\<close>
  (at least one and at most 25, all candidates in order over the requests), and
  it returns, with a nil error, exactly the candidates whose element is \<open>OK\<close> and
  below 1000 metres, in the order of the candidate list. For 30 candidates
  these are 2 requests, of 25 and of 5 destinations.
\<close>

theorem getWalkableTrucks_batches:
  assumes "\<forall>i<numRequests (length allTrucks).
             answers d (origin L lat lon) allTrucks i
               (map elem [25 * i..<min (length allTrucks) (25 * i + 25)])"
  shows "getWalkableTrucks L d allTrucks lat lon debugging =
           (Return (Inr (map ((!) allTrucks) (filter (\<lambda>j. walkable (elem j)) [0..<length allTrucks]))),
            map (\<lambda>i. \<lparr> Origins = origin L lat lon,
                         Destinations = map LatLon (take 25 (drop (25 * i) allTrucks)) \<rparr>)
              [0..<nat \<lceil>real (length allTrucks) / 25\<rceil>])
         \<and> (\<forall>i<nat \<lceil>real (length allTrucks) / 25\<rceil>.
               take 25 (drop (25 * i) allTrucks) \<noteq> [] \<and> length (take 25 (drop (25 * i) allTrucks)) \<le> 25)
         \<and> concat (map (\<lambda>i. take 25 (drop (25 * i) allTrucks)) [0..<nat \<lceil>real (length allTrucks) / 25\<rceil>]) = allTrucks"
proof -
  let ?n = "length allTrucks"
  let ?N = "numRequests ?n"
  let ?es = "\<lambda>i. map elem [25 * i..<min ?n (25 * i + 25)]"
  let ?keep = "\<lambda>j. walkable (elem j)"
  have N: "nat \<lceil>real ?n / 25\<rceil> = ?N"
    by (simp add: numRequests_def maxDestinationsPerRequest_def)
  have "inRange allTrucks (i * maxDestinationsPerRequest) (?es i)" for i
    by (auto simp: inRange_def maxDestinationsPerRequest_def mult.commute min_def split: if_splits)
  with assms have "\<forall>i<?N. answers d (origin L lat lon) allTrucks i (?es i)
      \<and> inRange allTrucks (i * maxDestinationsPerRequest) (?es i)"
    by simp
  from getWalkableTrucks_answers [OF this]
  have run: "getWalkableTrucks L d allTrucks lat lon debugging =
      (Return (Inr (concat (map (\<lambda>i. retained allTrucks (i * maxDestinationsPerRequest) (?es i)) [0..<?N]))),
       map (batchRequest (origin L lat lon) allTrucks) [0..<?N])" .
  have "concat (map (\<lambda>i. retained allTrucks (i * maxDestinationsPerRequest) (?es i)) [0..<?N]) =
      concat (map (\<lambda>i. map ((!) allTrucks) (filter ?keep [25 * i..<min ?n (25 * i + 25)])) [0..<?N])"
    by (simp add: maxDestinationsPerRequest_def mult.commute retained_elem)
  also have "\<dots> = map ((!) allTrucks) (filter ?keep (concat (map (\<lambda>i. [25 * i..<min ?n (25 * i + 25)]) [0..<?N])))"
    by (simp add: map_concat filter_concat comp_def)
  also have "concat (map (\<lambda>i. [25 * i..<min ?n (25 * i + 25)]) [0..<?N]) = [0..<min ?n (25 * ?N)]"
    by (rule concat_ranges)
  also have "min ?n (25 * ?N) = ?n"
    unfolding numRequests_div by simp
  finally have out: "concat (map (\<lambda>i. retained allTrucks (i * maxDestinationsPerRequest) (?es i)) [0..<?N]) =
      map ((!) allTrucks) (filter ?keep [0..<?n])" .
  have calls: "map (batchRequest (origin L lat lon) allTrucks) [0..<?N] =
      map (\<lambda>i. \<lparr> Origins = origin L lat lon, Destinations = map LatLon (take 25 (drop (25 * i) allTrucks)) \<rparr>) [0..<?N]"
    by (simp add: batchRequest_def maxDestinationsPerRequest_def Let_def min_def mult.commute)
  have each: "take 25 (drop (25 * i) allTrucks) \<noteq> [] \<and> length (take 25 (drop (25 * i) allTrucks)) \<le> 25"
    if "i < ?N" for i
    using that by (simp add: numRequests_less mult.commute)
  have "concat (map (\<lambda>i. take 25 (drop (25 * i) allTrucks)) [0..<?N]) = take (25 * ?N) allTrucks"
    by (rule concat_batches)
  also have "\<dots> = allTrucks"
    unfolding numRequests_div by simp
  finally have cover: "concat (map (\<lambda>i. take 25 (drop (25 * i) allTrucks)) [0..<?N]) = allTrucks" .
  from run out calls each cover show ?thesis
    unfolding N by simp
qed

lemma answers_sampleRetriever_elem:
  "answers sampleRetriever origins T i
     (map (\<lambda>j. sampleElement (LatLon (T ! j))) [25 * i..<min (length T) (25 * i + 25)])"
proof -
  have "map sampleElement (Destinations (batchRequest origins T i)) =
      map (\<lambda>j. sampleElement (LatLon (T ! j))) [25 * i..<min (length T) (25 * i + 25)]"
    by (simp add: Destinations_batchRequest take_drop_nth comp_def)
  with answers_sampleRetriever [of origins T i] show ?thesis
    by simp
qed

theorem getWalkableTrucks_batches_witness:
  "getWalkableTrucks sampleLib sampleRetriever (map numberedTruck [0..<30]) (Finite 37.79) (Finite (- 122.39)) False =
     (Return (Inr (map numberedTruck [0, 7, 14, 21, 28])),
      [\<lparr> Origins = [''37.790000,-122.390000''], Destinations = map (\<lambda>k. LatLon (numberedTruck k)) [0..<25] \<rparr>,
       \<lparr> Origins = [''37.790000,-122.390000''], Destinations = map (\<lambda>k. LatLon (numberedTruck k)) [25..<30] \<rparr>])
   \<and> length (map (\<lambda>k. LatLon (numberedTruck k)) [0..<25]) = 25
   \<and> length (map (\<lambda>k. LatLon (numberedTruck k)) [25..<30]) = 5"
proof -
  let ?T = "map numberedTruck [0..<30]"
  let ?elem = "\<lambda>j. sampleElement (LatLon (?T ! j))"
  have "\<forall>i<numRequests (length ?T). answers sampleRetriever (origin sampleLib (Finite 37.79) (Finite (- 122.39))) ?T i
      (map ?elem [25 * i..<min (length ?T) (25 * i + 25)])"
    using answers_sampleRetriever_elem by blast
  from getWalkableTrucks_batches [OF this, THEN conjunct1, of False]
  have run: "getWalkableTrucks sampleLib sampleRetriever ?T (Finite 37.79) (Finite (- 122.39)) False =
      (Return (Inr (map ((!) ?T) (filter (\<lambda>j. walkable (?elem j)) [0..<length ?T]))),
       map (\<lambda>i. \<lparr> Origins = origin sampleLib (Finite 37.79) (Finite (- 122.39)),
                    Destinations = map LatLon (take 25 (drop (25 * i) ?T)) \<rparr>)
         [0..<nat \<lceil>real (length ?T) / 25\<rceil>])" .
  have "filter (\<lambda>j. walkable (?elem j)) [0..<length ?T] = filter (\<lambda>j. j mod 7 = 0) [0..<30]"
    by (rule filter_cong) (simp_all add: walkable_def sampleElement_def numberedTruck_def)
  also have "\<dots> = [0, 7, 14, 21, 28]"
    by code_simp
  finally have kept: "filter (\<lambda>j. walkable (?elem j)) [0..<length ?T] = [0, 7, 14, 21, 28]" .
  have out: "map ((!) ?T) [0, 7, 14, 21, 28] = map numberedTruck [0, 7, 14, 21, 28]"
    by simp
  have "nat \<lceil>real (length ?T) / 25\<rceil> = 2"
    by simp
  moreover have "[0..<2] = [0, 1::nat]"
    by (simp add: upt_rec)
  ultimately have two: "[0..<nat \<lceil>real (length ?T) / 25\<rceil>] = [0, 1]"
    by simp
  have o: "origin sampleLib (Finite 37.79) (Finite (- 122.39)) = [''37.790000,-122.390000'']"
    by (simp add: origin_def sampleLib_def sampleFormat_def)
  have first: "map LatLon (take 25 (drop (25 * 0) ?T)) = map (\<lambda>k. LatLon (numberedTruck k)) [0..<25]"
    by (simp add: take_map)
  have second: "map LatLon (take 25 (drop (25 * 1) ?T)) = map (\<lambda>k. LatLon (numberedTruck k)) [25..<30]"
    by (simp add: drop_map)
  have "getWalkableTrucks sampleLib sampleRetriever ?T (Finite 37.79) (Finite (- 122.39)) False =
     (Return (Inr (map numberedTruck [0, 7, 14, 21, 28])),
      [\<lparr> Origins = [''37.790000,-122.390000''], Destinations = map (\<lambda>k. LatLon (numberedTruck k)) [0..<25] \<rparr>,
       \<lparr> Origins = [''37.790000,-122.390000''], Destinations = map (\<lambda>k. LatLon (numberedTruck k)) [25..<30] \<rparr>])"
    unfolding run kept out two o
    by (simp only: list.map first second)
  then show ?thesis
    by simp
qed

subsection \<open>A failing call\<close>

lemma getWalkableTrucks_no_error_return:
  "fst (getWalkableTrucks L d allTrucks lat lon debugging) \<noteq> Return (Inl e)"
  by (simp add: getWalkableTrucks_def requestLoop_no_error_return)

lemma searchFoodTrucks_panic:
  assumes "lat \<noteq> Finite 0" and "lon \<noteq> Finite 0"
    and "keywordStep L h searchList searchTerm = (r, h1)"
    and "fst (getWalkableTrucks L d (deref h1 r) lat lon debugging) = Panic p"
  shows "fst (searchFoodTrucks L h searchList d debugging searchTerm lat lon newestFirst) = Panic p"
  using assms by (cases "getWalkableTrucks L d (deref h1 r) lat lon debugging") (simp add: searchFoodTrucks_def)

text \<open>
  Claim C3, as amended. When call \<open>k\<close> of the service returns an error, the calls
  before it having been answered, \<open>getWalkableTrucks\<close> panics with that error at
  once: it sends no further request and returns neither the candidates kept so
  far nor the error (it never returns a non-nil error at all). The panic
  unwinds the caller: \<open>searchFoodTrucks\<close> ends in the same panic.
\<close>

theorem getWalkableTrucks_lookup_error:
  assumes "k < numRequests (length allTrucks)"
    and "\<forall>i<k. answers d (origin L lat lon) allTrucks i (es i) \<and> inRange allTrucks (i * maxDestinationsPerRequest) (es i)"
    and "d k (batchRequest (origin L lat lon) allTrucks k) = Inl err"
  shows "getWalkableTrucks L d allTrucks lat lon debugging =
           (Panic (PanicError err), map (batchRequest (origin L lat lon) allTrucks) [0..<Suc k])
         \<and> (\<forall>e. fst (getWalkableTrucks L d allTrucks lat lon debugging) \<noteq> Return (Inl e))
         \<and> (\<forall>h searchList searchTerm r h1 newestFirst.
               lat \<noteq> Finite 0 \<and> lon \<noteq> Finite 0 \<and> keywordStep L h searchList searchTerm = (r, h1) \<and> deref h1 r = allTrucks \<longrightarrow>
               fst (searchFoodTrucks L h searchList d debugging searchTerm lat lon newestFirst) = Panic (PanicError err))"
proof -
  have prior: "\<forall>i. 0 \<le> i \<and> i < k \<longrightarrow>
      answers d (origin L lat lon) allTrucks i (es i) \<and> inRange allTrucks (i * maxDestinationsPerRequest) (es i)"
    using assms(2) by simp
  have run: "getWalkableTrucks L d allTrucks lat lon debugging =
      (Panic (PanicError err), map (batchRequest (origin L lat lon) allTrucks) [0..<Suc k])"
    using requestLoop_error [OF batches_in_bounds le0 assms(1) prior assms(3), of "[]" "[]"]
    by (simp add: getWalkableTrucks_def origin_def)
  have caller: "fst (searchFoodTrucks L h searchList d debugging searchTerm lat lon newestFirst) = Panic (PanicError err)"
    if "lat \<noteq> Finite 0 \<and> lon \<noteq> Finite 0 \<and> keywordStep L h searchList searchTerm = (r, h1) \<and> deref h1 r = allTrucks"
    for h searchList searchTerm r h1 newestFirst
    using that run by (intro searchFoodTrucks_panic [where r = r and ?h1.0 = h1]) simp_all
  have never: "\<forall>e. fst (getWalkableTrucks L d allTrucks lat lon debugging) \<noteq> Return (Inl e)"
    by (simp add: getWalkableTrucks_no_error_return)
  from run never caller show ?thesis
    by blast
qed

theorem getWalkableTrucks_lookup_error_witness:
  "fst (getWalkableTrucks sampleLib flakyRetriever (replicate 30 truckA) (Finite 37.79) (Finite (- 122.39)) False) =
     Panic (PanicError (ExternalError ''OVER_QUERY_LIMIT''))
   \<and> length (snd (getWalkableTrucks sampleLib flakyRetriever (replicate 30 truckA) (Finite 37.79) (Finite (- 122.39)) False)) = 2
   \<and> fst (searchFoodTrucks sampleLib [replicate 30 truckA] (Slice 0 0 30) flakyRetriever False [] (Finite 37.79) (Finite (- 122.39)) True) =
     Panic (PanicError (ExternalError ''OVER_QUERY_LIMIT''))"
proof -
  let ?T = "replicate 30 truckA"
  let ?o = "origin sampleLib (Finite 37.79) (Finite (- 122.39))"
  let ?es = "\<lambda>i. map sampleElement (Destinations (batchRequest ?o ?T i))"
  have second: "1 < numRequests (length ?T)"
    by (simp add: numRequests_div)
  have "answers flakyRetriever ?o ?T 0 (?es 0)"
    using answers_sampleRetriever [of ?o ?T 0] by (simp add: answers_def flakyRetriever_def)
  moreover have "inRange ?T (0 * maxDestinationsPerRequest) (?es 0)"
    by (simp add: inRange_def length_Destinations)
  ultimately have first: "\<forall>i<1. answers flakyRetriever ?o ?T i (?es i) \<and> inRange ?T (i * maxDestinationsPerRequest) (?es i)"
    by simp
  have fails: "flakyRetriever 1 (batchRequest ?o ?T 1) = Inl (ExternalError ''OVER_QUERY_LIMIT'')"
    by (simp add: flakyRetriever_def)
  note inst = getWalkableTrucks_lookup_error [OF second first fails, of False]
  have run: "getWalkableTrucks sampleLib flakyRetriever ?T (Finite 37.79) (Finite (- 122.39)) False =
      (Panic (PanicError (ExternalError ''OVER_QUERY_LIMIT'')), map (batchRequest ?o ?T) [0..<Suc 1])"
    using inst by (rule conjunct1)
  have step: "keywordStep sampleLib [?T] (Slice 0 0 30) [] = (Slice 0 0 30, [?T])"
    by (simp add: keywordStep_def)
  have "(Finite 37.79 :: float64) \<noteq> Finite 0 \<and> (Finite (- 122.39) :: float64) \<noteq> Finite 0
      \<and> keywordStep sampleLib [?T] (Slice 0 0 30) [] = (Slice 0 0 30, [?T]) \<and> deref [?T] (Slice 0 0 30) = ?T"
    using step by simp
  with inst have "fst (searchFoodTrucks sampleLib [?T] (Slice 0 0 30) flakyRetriever False [] (Finite 37.79) (Finite (- 122.39)) True) =
      Panic (PanicError (ExternalError ''OVER_QUERY_LIMIT''))"
    by blast
  with run show ?thesis
    by simp
qed

text \<open>
  Claim C3 as stated, that the error is returned to the caller, fails: line 249
  is \<open>panic(err)\<close>. With a service that fails at its first call,
  \<open>getWalkableTrucks\<close> panics and does not return the error.
\<close>

theorem getWalkableTrucks_error_not_returned:
  "failingRetriever 0 (batchRequest (origin sampleLib (Finite 37.79) (Finite (- 122.39))) [truckA] 0) =
     Inl (ExternalError ''REQUEST_DENIED'')
   \<and> getWalkableTrucks sampleLib failingRetriever [truckA] (Finite 37.79) (Finite (- 122.39)) False =
       (Panic (PanicError (ExternalError ''REQUEST_DENIED'')),
        [\<lparr> Origins = [''37.790000,-122.390000''], Destinations = [''37.79,-122.39''] \<rparr>])
   \<and> fst (getWalkableTrucks sampleLib failingRetriever [truckA] (Finite 37.79) (Finite (- 122.39)) False) \<noteq>
       Return (Inl (ExternalError ''REQUEST_DENIED''))"
proof -
  have "numRequests (length [truckA]) = 1"
    by (simp add: numRequests_div)
  then have "getWalkableTrucks sampleLib failingRetriever [truckA] (Finite 37.79) (Finite (- 122.39)) False =
       (Panic (PanicError (ExternalError ''REQUEST_DENIED'')),
        [\<lparr> Origins = [''37.790000,-122.390000''], Destinations = [''37.79,-122.39''] \<rparr>])"
    by (simp add: getWalkableTrucks_def requestLoop.simps processBatch_def failingRetriever_def batchRequest_def
        maxDestinationsPerRequest_def origin_def sampleLib_def sampleFormat_def truckA_def sampleTruck_def)
  then show ?thesis
    by (simp add: failingRetriever_def)
qed

section \<open>The proximity step of searchFoodTrucks\<close>

lemma getWalkableTrucks_first_call:
  assumes "allTrucks \<noteq> []"
  shows "\<exists>more. snd (getWalkableTrucks L d allTrucks lat lon debugging) =
           batchRequest (origin L lat lon) allTrucks 0 # more"
proof -
  let ?o = "origin L lat lon"
  let ?n = "numRequests (length allTrucks)"
  have pos: "0 < ?n"
    using assms by (simp add: numRequests_less)
  have bound: "\<not> 0 * maxDestinationsPerRequest > min (length allTrucks) (0 * maxDestinationsPerRequest + maxDestinationsPerRequest)"
    by simp
  show ?thesis
  proof (cases "processBatch d ?o allTrucks 0 []")
    case (Panic p)
    then show ?thesis
      using pos by (simp add: getWalkableTrucks_def origin_def requestLoop.simps [of _ _ _ _ 0])
  next
    case (Return ws)
    from requestLoop_calls [of d ?o allTrucks ?n "Suc 0" ws "[batchRequest ?o allTrucks 0]"]
    obtain more where "snd (requestLoop d ?o allTrucks ?n (Suc 0) ws [batchRequest ?o allTrucks 0]) =
        [batchRequest ?o allTrucks 0] @ more"
      by blast
    with Return pos show ?thesis
      by (simp add: getWalkableTrucks_def origin_def requestLoop.simps [of _ _ _ _ 0])
  qed
qed

text \<open>
  Claim C8. When the latitude or the longitude is zero, the distance service is
  not called and \<open>searchFoodTrucks\<close> does what it does with no coordinate at all:
  the result of the keyword step passes on unchanged. When both are non-zero,
  the requests sent are those of \<open>getWalkableTrucks\<close> on the result of the
  keyword step (at least one when that result is not empty), and what
  \<open>getWalkableTrucks\<close> returns replaces the result.
\<close>

theorem searchFoodTrucks_proximity_guard:
  assumes "keywordStep L h searchList searchTerm = (r, h1)"
  shows "(lat = Finite 0 \<or> lon = Finite 0 \<longrightarrow>
            searchFoodTrucks L h searchList d debugging searchTerm lat lon newestFirst =
              searchFoodTrucks L h searchList d' debugging searchTerm (Finite 0) (Finite 0) newestFirst
            \<and> searchFoodTrucks L h searchList d debugging searchTerm lat lon False = (Return r, h1, []))
         \<and> (lat \<noteq> Finite 0 \<and> lon \<noteq> Finite 0 \<longrightarrow>
              snd (snd (searchFoodTrucks L h searchList d debugging searchTerm lat lon newestFirst)) =
                snd (getWalkableTrucks L d (deref h1 r) lat lon debugging)
              \<and> (deref h1 r \<noteq> [] \<longrightarrow>
                   (\<exists>more. snd (snd (searchFoodTrucks L h searchList d debugging searchTerm lat lon newestFirst)) =
                      batchRequest (origin L lat lon) (deref h1 r) 0 # more))
              \<and> (\<forall>walkableTrucks. fst (getWalkableTrucks L d (deref h1 r) lat lon debugging) = Return (Inr walkableTrucks) \<longrightarrow>
                   (\<exists>r' h2 calls. searchFoodTrucks L h searchList d debugging searchTerm lat lon False = (Return r', h2, calls)
                      \<and> deref h2 r' = walkableTrucks)))"
proof (intro conjI impI)
  assume "lat = Finite 0 \<or> lon = Finite 0"
  then show "searchFoodTrucks L h searchList d debugging searchTerm lat lon newestFirst =
      searchFoodTrucks L h searchList d' debugging searchTerm (Finite 0) (Finite 0) newestFirst"
    by (auto simp: searchFoodTrucks_def)
next
  assume "lat = Finite 0 \<or> lon = Finite 0"
  then show "searchFoodTrucks L h searchList d debugging searchTerm lat lon False = (Return r, h1, [])"
    using assms by (auto simp: searchFoodTrucks_def newestStep_def)
next
  assume nz: "lat \<noteq> Finite 0 \<and> lon \<noteq> Finite 0"
  then show calls: "snd (snd (searchFoodTrucks L h searchList d debugging searchTerm lat lon newestFirst)) =
      snd (getWalkableTrucks L d (deref h1 r) lat lon debugging)"
    using assms
    by (cases "getWalkableTrucks L d (deref h1 r) lat lon debugging")
      (auto simp: searchFoodTrucks_def split: outcome.splits sum.splits prod.splits)
  show "\<exists>more. snd (snd (searchFoodTrucks L h searchList d debugging searchTerm lat lon newestFirst)) =
      batchRequest (origin L lat lon) (deref h1 r) 0 # more" if "deref h1 r \<noteq> []"
    unfolding calls by (rule getWalkableTrucks_first_call [OF that])
  show "\<forall>walkableTrucks. fst (getWalkableTrucks L d (deref h1 r) lat lon debugging) = Return (Inr walkableTrucks) \<longrightarrow>
      (\<exists>r' h2 calls. searchFoodTrucks L h searchList d debugging searchTerm lat lon False = (Return r', h2, calls)
         \<and> deref h2 r' = walkableTrucks)"
  proof (intro allI impI)
    fix walkableTrucks
    assume ret: "fst (getWalkableTrucks L d (deref h1 r) lat lon debugging) = Return (Inr walkableTrucks)"
    obtain r' h2 where fresh: "fromList walkableTrucks h1 = (r', h2)"
      by (cases "fromList walkableTrucks h1")
    from ret obtain calls where "getWalkableTrucks L d (deref h1 r) lat lon debugging = (Return (Inr walkableTrucks), calls)"
      by (cases "getWalkableTrucks L d (deref h1 r) lat lon debugging") simp
    then have "searchFoodTrucks L h searchList d debugging searchTerm lat lon False = (Return r', h2, calls)"
      using assms nz fresh by (simp add: searchFoodTrucks_def newestStep_def)
    moreover have "deref h2 r' = walkableTrucks"
      using deref_fromList [OF fresh] by simp
    ultimately show "\<exists>r' h2 calls. searchFoodTrucks L h searchList d debugging searchTerm lat lon False = (Return r', h2, calls)
         \<and> deref h2 r' = walkableTrucks"
      by blast
  qed
qed

theorem searchFoodTrucks_proximity_guard_witness:
  "searchFoodTrucks sampleLib [[truckA, truckD, truckE, truckB]] (Slice 0 0 4) sampleRetriever False []
      (Finite 37.79) (Finite 0) False = (Return (Slice 0 0 4), [[truckA, truckD, truckE, truckB]], [])
   \<and> snd (snd (searchFoodTrucks sampleLib [[truckA, truckD, truckE, truckB]] (Slice 0 0 4) sampleRetriever False []
      (Finite 37.79) (Finite (- 122.39)) False)) =
       [\<lparr> Origins = [''37.790000,-122.390000''],
          Destinations = [''37.79,-122.39'', ''37.80,-122.41'', ''0,0'', ''37.79,-122.39''] \<rparr>]"
proof -
  let ?T = "[truckA, truckD, truckE, truckB]"
  let ?o = "origin sampleLib (Finite 37.79) (Finite (- 122.39))"
  let ?es = "\<lambda>i. map sampleElement (Destinations (batchRequest ?o ?T i))"
  have step: "keywordStep sampleLib [?T] (Slice 0 0 4) [] = (Slice 0 0 4, [?T])"
    by (simp add: keywordStep_def)
  have "(Finite 37.79 :: float64) = Finite 0 \<or> (Finite 0 :: float64) = Finite 0"
    by simp
  with searchFoodTrucks_proximity_guard [OF step, of "Finite 37.79" "Finite 0" sampleRetriever False False sampleRetriever]
  have skipped: "searchFoodTrucks sampleLib [?T] (Slice 0 0 4) sampleRetriever False []
      (Finite 37.79) (Finite 0) False = (Return (Slice 0 0 4), [?T], [])"
    by blast
  have "(Finite 37.79 :: float64) \<noteq> Finite 0 \<and> (Finite (- 122.39) :: float64) \<noteq> Finite 0"
    by simp
  with searchFoodTrucks_proximity_guard [OF step, of "Finite 37.79" "Finite (- 122.39)" sampleRetriever False False sampleRetriever]
  have "snd (snd (searchFoodTrucks sampleLib [?T] (Slice 0 0 4) sampleRetriever False []
      (Finite 37.79) (Finite (- 122.39)) False)) =
      snd (getWalkableTrucks sampleLib sampleRetriever (deref [?T] (Slice 0 0 4)) (Finite 37.79) (Finite (- 122.39)) False)"
    by blast
  also have "deref [?T] (Slice 0 0 4) = ?T"
    by simp
  also have "snd (getWalkableTrucks sampleLib sampleRetriever ?T (Finite 37.79) (Finite (- 122.39)) False) =
      map (batchRequest ?o ?T) [0..<numRequests (length ?T)]"
  proof -
    have "\<forall>i<numRequests (length ?T). answers sampleRetriever ?o ?T i (?es i)
        \<and> inRange ?T (i * maxDestinationsPerRequest) (?es i)"
      using answers_sampleRetriever
      by (simp add: numRequests_div inRange_def length_Destinations)
    from getWalkableTrucks_answers [OF this] show ?thesis
      by simp
  qed
  also have "\<dots> = [\<lparr> Origins = [''37.790000,-122.390000''],
          Destinations = [''37.79,-122.39'', ''37.80,-122.41'', ''0,0'', ''37.79,-122.39''] \<rparr>]"
    by (simp add: numRequests_div batchRequest_def maxDestinationsPerRequest_def origin_def sampleLib_def sampleFormat_def
        truckA_def truckB_def truckC_def truckD_def truckE_def sampleTruck_def)
  finally show ?thesis
    using skipped by simp
qed

end
